theory Spec2Isabelle
  imports Main "HOL-Library.Word" "HOL-Library.Log_Nat"
begin

unbundle bit_operations_syntax

section \<open>The eta scanner: data model\<close>

text \<open>
  The source is \<^verbatim>\<open>eta_scanner/eta_congruent_gpu.cu\<close>. Every \<^verbatim>\<open>uint64_t\<close> is a
  \<open>64 word\<close>: \<open>+\<close>, \<open>-\<close> and \<open>*\<close> wrap modulo \<open>2 ^ 64\<close>, \<open>div\<close> and \<open>mod\<close> are the
  unsigned operations, \<open>drop_bit 1\<close> is \<^verbatim>\<open>>> 1\<close>. The moduli are C \<^verbatim>\<open>int\<close>s; they
  are converted to \<^verbatim>\<open>uint64_t\<close> by the usual arithmetic conversions wherever they meet
  a \<^verbatim>\<open>uint64_t\<close>, which is \<open>word_of_int\<close>.
\<close>

type_synonym u64 = "64 word"

definition ULLONG_MAX :: u64 where
  "ULLONG_MAX = - 1"

definition ETA_CEILING :: u64 where
  "ETA_CEILING = 1518500249"

section \<open>Integer square root\<close>

text \<open>
  \<^verbatim>\<open>(double)n\<close> rounds a 64-bit integer to the nearest binary64 value, ties to the even
  significand. On naturals: values below \<open>2 ^ 53\<close> are exact; a value of bit length
  \<open>53 + e\<close> keeps its top 53 bits, rounded on the \<open>e\<close> bits that are dropped.
\<close>

definition to_double :: "nat \<Rightarrow> nat" where
  "to_double n =
     (if n < 2 ^ 53 then n
      else let e = floorlog 2 n - 53;
               q = n div 2 ^ e;
               r = n mod 2 ^ e;
               h = 2 ^ (e - 1)
           in (if h < r \<or> (r = h \<and> odd q) then q + 1 else q) * 2 ^ e)"

text \<open>
  The seed \<^verbatim>\<open>(uint64_t)((double)n * 0.5 + 1.0)\<close>. The product with \<open>0.5\<close> is exact, so
  the expression has the same value with or without a fused multiply-add. With
  \<open>a = (double)n\<close>: below \<open>2 ^ 53\<close> the sum \<open>a / 2 + 1\<close> is an integer or a half-integer
  of at most \<open>2 ^ 52 + 1 / 2\<close> and the conversion truncates it to \<open>a div 2 + 1\<close>; from
  \<open>2 ^ 53\<close> on \<open>a\<close> is even and the integer \<open>a div 2 + 1\<close> is rounded to binary64 again.
\<close>

definition isqrt_seed :: "u64 \<Rightarrow> u64" where
  "isqrt_seed n =
     (let a = to_double (unat n)
      in if a < 2 ^ 53 then of_nat (a div 2 + 1)
         else of_nat (to_double (a div 2 + 1)))"

definition newton_step :: "u64 \<Rightarrow> u64 \<Rightarrow> u64" where
  "newton_step n x = drop_bit 1 (x + n div x)"

text \<open>
  \<^verbatim>\<open>isqrt_uint64\<close>: the seed, three Newton steps, one correction. No divisor is zero
  on this path (the seed is at least 1 and a step maps a non-zero \<open>x\<close> to a non-zero
  value when \<open>n\<close> is not zero), so the words' \<open>div\<close> is the C division here.
\<close>

definition isqrt_uint64 :: "u64 \<Rightarrow> u64" where
  "isqrt_uint64 n =
     (if n = 0 then 0
      else let x = isqrt_seed n;
               x = newton_step n x;
               x = newton_step n x;
               x = newton_step n x
           in if n div x < x then x - 1 else x)"

text \<open>The test of the kernel on the root: \<^verbatim>\<open>y * y == candidate\<close>.\<close>

definition verify_square :: "u64 \<Rightarrow> bool" where
  "verify_square candidate = (let y = isqrt_uint64 candidate in y * y = candidate)"

section \<open>Residue filter\<close>

text \<open>The loops over the tables of 23 and 29: true at the first entry equal to \<open>val\<close>.\<close>

primrec scan_table :: "u64 \<Rightarrow> u64 list \<Rightarrow> bool" where
  "scan_table val [] = False"
| "scan_table val (r # rs) = (if val = r then True else scan_table val rs)"

definition r23 :: "u64 list" where
  "r23 = [1, 2, 3, 4, 6, 8, 9, 12, 13, 16, 18, 22]"

definition r29 :: "u64 list" where
  "r29 = [1, 4, 5, 6, 7, 9, 13, 16, 20, 22, 23, 24, 25, 28]"

text \<open>
  \<^verbatim>\<open>is_qr_mod\<close>. The kernel calls it with the nine moduli of \<open>Q\<close> only; a modulus 0
  would be a division by zero in C and is not among them.
\<close>

definition is_qr_mod :: "u64 \<Rightarrow> int \<Rightarrow> bool" where
  "is_qr_mod val0 md =
     (let val = val0 mod word_of_int md
      in if val = 0 then True
         else if md = 3 then val = 1
         else if md = 5 then val = 1 \<or> val = 4
         else if md = 7 then val = 1 \<or> val = 2 \<or> val = 4
         else if md = 11 then val = 1 \<or> val = 3 \<or> val = 4 \<or> val = 5 \<or> val = 9
         else if md = 13 then
           val = 1 \<or> val = 3 \<or> val = 4 \<or> val = 9 \<or> val = 10 \<or> val = 12
         else if md = 17 then
           val = 1 \<or> val = 2 \<or> val = 4 \<or> val = 8 \<or> val = 9 \<or> val = 13 \<or> val = 15
             \<or> val = 16
         else if md = 19 then
           val = 1 \<or> val = 4 \<or> val = 5 \<or> val = 6 \<or> val = 7 \<or> val = 9 \<or> val = 11
             \<or> val = 16 \<or> val = 17
         else if md = 23 then scan_table val r23
         else if md = 29 then scan_table val r29
         else False)"

definition Q :: "int list" where
  "Q = [3, 5, 7, 11, 13, 17, 19, 23, 29]"

text \<open>The value \<^verbatim>\<open>(T % q + d2 % q) % q\<close> handed to the filter.\<close>

definition residue_total :: "u64 \<Rightarrow> u64 \<Rightarrow> int \<Rightarrow> u64" where
  "residue_total T d2 q =
     (T mod word_of_int q + d2 mod word_of_int q) mod word_of_int q"

text \<open>The loop over \<open>Q\<close> with its \<^verbatim>\<open>break\<close>: the value of \<^verbatim>\<open>survive\<close> after it.\<close>

primrec survive_loop :: "u64 \<Rightarrow> u64 \<Rightarrow> int list \<Rightarrow> bool" where
  "survive_loop T d2 [] = True"
| "survive_loop T d2 (q # qs) =
     (if \<not> is_qr_mod (residue_total T d2 q) q then False else survive_loop T d2 qs)"

section \<open>The kernel\<close>

text \<open>
  What one worker does. \<open>Skipped\<close> is a return before the filter (lines 68, 69 and 73),
  \<open>Filtered\<close> the return after the filter loop, \<open>NotSquare\<close> a verification that fails,
  \<open>Hit eta\<close> the call \<^verbatim>\<open>atomicMin(d_min_eta, eta)\<close>.
\<close>

datatype outcome = Skipped | Filtered | NotSquare | Hit u64

text \<open>
  A worker is the pair of \<^verbatim>\<open>blockIdx.x\<close> and \<^verbatim>\<open>threadIdx.x\<close>; \<^verbatim>\<open>blockDim.x\<close> is the
  \<open>BLOCK_SIZE\<close> of the launch.
\<close>

definition BLOCK_SIZE :: nat where
  "BLOCK_SIZE = 256"

definition thread_eta :: "u64 \<Rightarrow> nat \<Rightarrow> nat \<Rightarrow> u64" where
  "thread_eta n_start blk thr = n_start + of_nat blk * of_nat BLOCK_SIZE + of_nat thr"

definition eta_congruent_kernel :: "u64 \<Rightarrow> u64 \<Rightarrow> u64 \<Rightarrow> nat \<Rightarrow> nat \<Rightarrow> outcome" where
  "eta_congruent_kernel T n_start n_end blk thr =
     (let eta = thread_eta n_start blk thr
      in if n_end < eta \<or> eta = 0 then Skipped
         else if ETA_CEILING < eta then Skipped
         else let d = 2 * eta - 1;
                  d2 = d * d
              in if ULLONG_MAX - T < d2 then Skipped
                 else if \<not> survive_loop T d2 Q then Filtered
                 else let candidate = T + d2;
                          y = isqrt_uint64 candidate
                      in if y * y = candidate then Hit eta else NotSquare)"

text \<open>The effect of a worker on the register: \<^verbatim>\<open>atomicMin\<close> on a hit, nothing otherwise.\<close>

fun atomicMin :: "outcome \<Rightarrow> u64 \<Rightarrow> u64" where
  "atomicMin (Hit eta) reg = min reg eta"
| "atomicMin _ reg = reg"

text \<open>
  The test a worker applies to its index once the index is inside the chunk: the guards
  of lines 68 to 73, the filter and the verification, read off the kernel.
\<close>

definition index_test :: "u64 \<Rightarrow> u64 \<Rightarrow> bool" where
  "index_test T eta =
     (eta \<noteq> 0 \<and> eta \<le> ETA_CEILING \<and>
      (let d = 2 * eta - 1;
           d2 = d * d
       in \<not> ULLONG_MAX - T < d2 \<and> survive_loop T d2 Q \<and> verify_square (T + d2)))"

section \<open>The dispatcher\<close>

text \<open>
  A launch \<^verbatim>\<open><<<grid, BLOCK_SIZE>>>\<close> runs one worker for every block index below
  \<open>grid\<close> and every thread index below \<open>BLOCK_SIZE\<close>. The workers retire in no
  defined order; a schedule is a list of workers, and \<open>kernel_launch\<close> applies their
  effects on the register in the order of the schedule.
\<close>

definition launch_threads :: "32 word \<Rightarrow> (nat \<times> nat) list" where
  "launch_threads grid = [(blk, thr). blk \<leftarrow> [0..<unat grid], thr \<leftarrow> [0..<BLOCK_SIZE]]"

definition kernel_launch :: "(nat \<times> nat) list \<Rightarrow> u64 \<Rightarrow> u64 \<Rightarrow> u64 \<Rightarrow> u64 \<Rightarrow> u64" where
  "kernel_launch sched T n_start n_end reg =
     fold (\<lambda>(blk, thr). atomicMin (eta_congruent_kernel T n_start n_end blk thr)) sched reg"

text \<open>
  The calls under \<^verbatim>\<open>CUDA_CHECK\<close> end the process with \<^verbatim>\<open>EXIT_FAILURE\<close> when the
  runtime reports an error. Whether it does is not decided by the program: the site of
  the first failing call, if any, is a parameter. \<open>Setup\<close> stands for the calls of lines
  101 to 108, \<open>Launch k\<close> for \<^verbatim>\<open>cudaGetLastError\<close> after the launch of chunk \<open>k\<close>
  (from 0), \<open>Collect\<close> for lines 117 to 124 and \<open>Release\<close> for lines 131 to 133.
\<close>

datatype cuda_site = Setup | Launch nat | Collect | Release

datatype error = CudaFatal cuda_site

definition MAX_GRID_DIM :: u64 where
  "MAX_GRID_DIM = 65535"

definition CHUNK_SIZE :: u64 where
  "CHUNK_SIZE = of_nat BLOCK_SIZE * MAX_GRID_DIM"

definition chunk_end :: "u64 \<Rightarrow> u64 \<Rightarrow> u64" where
  "chunk_end n_max n0 =
     (if n0 + CHUNK_SIZE - 1 < n_max then n0 + CHUNK_SIZE - 1 else n_max)"

definition chunk_grid :: "u64 \<Rightarrow> u64 \<Rightarrow> 32 word" where
  "chunk_grid n0 n1 = ucast ((n1 - n0 + 1 + of_nat BLOCK_SIZE - 1) div of_nat BLOCK_SIZE)"

text \<open>
  The loop of lines 110 to 115, from the state in which the chunk counter is \<open>k\<close>, the
  loop variable \<open>n0\<close> and the register \<open>reg\<close>. \<open>None\<close> is a loop that never ends.
  The runtime refuses a grid of 0 or of more than 65535 blocks; the grid of a chunk is
  never one of these (lemma \<open>chunk_grid_range\<close> below), so the loop has no such branch.
\<close>

partial_function (option) dispatch_loop ::
  "cuda_site option \<Rightarrow> u64 \<Rightarrow> u64 \<Rightarrow> nat \<Rightarrow> u64 \<Rightarrow> u64 \<Rightarrow> (error + u64) option" where
  "dispatch_loop flt T n_max k n0 reg =
     (if n0 \<le> n_max then
        (let n1 = chunk_end n_max n0;
             grid = chunk_grid n0 n1;
             reg' = kernel_launch (launch_threads grid) T n0 n1 reg
         in if flt = Some (Launch k) then Some (Inl (CudaFatal (Launch k)))
            else dispatch_loop flt T n_max (Suc k) (n0 + CHUNK_SIZE) reg')
      else Some (Inr reg))"

text \<open>
  What the program prints on the standard output. \<open>Banner T (T mod 4) n_max\<close> is the
  title with the echo of the parameters, \<open>Warning\<close> the warning on \<open>T mod 4\<close>,
  \<open>Gpu\<close> the line of the device, \<open>Timing\<close> the computation time (with the
  throughput when the program prints it), \<open>NoEta\<close> and \<open>EtaFound\<close> the verdict,
  \<open>Meta\<close> the closing block. The lines of the error stream are the usage line, the
  line on \<open>n_max\<close> and the fatal line of \<^verbatim>\<open>CUDA_CHECK\<close>.
\<close>

datatype out_line =
    Banner u64 u64 u64
  | Warning
  | Gpu
  | Timing
  | NoEta u64
  | EtaFound u64 u64
  | Meta u64 u64

datatype err_line = Usage | NMaxZero | Fatal cuda_site

text \<open>
  \<^verbatim>\<open>search_eta_chunked\<close>: the register starts at \<^verbatim>\<open>ULLONG_MAX\<close>, the loop runs from
  \<open>n0 = 1\<close>, the register is read back and the time is printed.
\<close>

definition search_eta_chunked ::
  "cuda_site option \<Rightarrow> u64 \<Rightarrow> u64 \<Rightarrow> (out_line list \<times> (error + u64)) option" where
  "search_eta_chunked flt T n_max =
     (if flt = Some Setup then Some ([], Inl (CudaFatal Setup))
      else case dispatch_loop flt T n_max 0 1 ULLONG_MAX of
             None \<Rightarrow> None
           | Some (Inl e) \<Rightarrow> Some ([], Inl e)
           | Some (Inr result) \<Rightarrow>
               if flt = Some Collect then Some ([], Inl (CudaFatal Collect))
               else if flt = Some Release then Some ([Timing], Inl (CudaFatal Release))
               else Some ([Timing], Inr result))"

section \<open>The command\<close>

record run =
  exit_code :: int
  err :: "err_line list"
  out :: "out_line list"

definition header :: "u64 \<Rightarrow> u64 \<Rightarrow> out_line list" where
  "header T n_max = Banner T (T mod 4) n_max # (if T mod 4 \<noteq> 3 then [Warning] else []) @ [Gpu]"

text \<open>
  \<^verbatim>\<open>main\<close>. \<open>argv\<close> holds the program name and the arguments, so \<open>argc\<close> is its
  length. \<^verbatim>\<open>strtoull\<close> belongs to the C library and is a parameter.
\<close>

definition main :: "(string \<Rightarrow> u64) \<Rightarrow> cuda_site option \<Rightarrow> string list \<Rightarrow> run option" where
  "main strtoull flt argv =
     (if length argv \<noteq> 3 then Some \<lparr>exit_code = 1, err = [Usage], out = []\<rparr>
      else let T = strtoull (argv ! 1);
               n_max = strtoull (argv ! 2)
           in if n_max = 0 then Some \<lparr>exit_code = 1, err = [NMaxZero], out = []\<rparr>
              else case search_eta_chunked flt T n_max of
                     None \<Rightarrow> None
                   | Some (printed, Inl (CudaFatal site)) \<Rightarrow>
                       Some \<lparr>exit_code = 1, err = [Fatal site], out = header T n_max @ printed\<rparr>
                   | Some (printed, Inr result) \<Rightarrow>
                       Some \<lparr>exit_code = 0, err = [],
                             out = header T n_max @ printed @
                               [if result = ULLONG_MAX then NoEta n_max
                                else EtaFound result (4 * result - 2),
                                Meta T n_max]\<rparr>)"

text \<open>
  A reader of decimal digits: what \<^verbatim>\<open>strtoull\<close> with base 10 returns on a string that
  starts with digits whose value fits 64 bits. It stands for \<^verbatim>\<open>strtoull\<close> where a
  concrete command line is run.
\<close>

fun decimal_from :: "u64 \<Rightarrow> string \<Rightarrow> u64" where
  "decimal_from acc [] = acc"
| "decimal_from acc (c # cs) =
     (let d = (of_char c :: nat)
      in if 48 \<le> d \<and> d \<le> 57 then decimal_from (acc * 10 + of_nat (d - 48)) cs else acc)"

definition decimal :: "string \<Rightarrow> u64" where
  "decimal s = decimal_from 0 s"

section \<open>The exhaustive scan\<close>

text \<open>
  The reference of the search, in the words of the specification: every index from 1 to
  \<open>n_max\<close> in turn, the smallest one that passes the test of the worker, and the
  sentinel when none passes.
\<close>

definition spec_scan :: "u64 \<Rightarrow> u64 \<Rightarrow> u64" where
  "spec_scan T n_max =
     fold (\<lambda>i best. if index_test T (of_nat i) then min best (of_nat i) else best)
       [1..<Suc (unat n_max)] ULLONG_MAX"

text \<open>The indices between \<open>lo\<close> and \<open>hi\<close> that pass the test of the worker.\<close>

definition passing :: "u64 \<Rightarrow> u64 \<Rightarrow> u64 \<Rightarrow> u64 set" where
  "passing T lo hi = {eta. lo \<le> eta \<and> eta \<le> hi \<and> index_test T eta}"

text \<open>
  The reduction over any list of chunks, in the words of the specification: every chunk
  \<open>(a, b)\<close> is one launch over the indices from \<open>a\<close> to \<open>b\<close>, with the grid the
  dispatcher computes for it, and the launches share the register. A valid partition of
  \<open>lo\<close> to \<open>hi\<close> is a list of contiguous chunks from \<open>lo\<close> to \<open>hi\<close>, none larger
  than the hardware allows.
\<close>

fun spec_run_chunks :: "u64 \<Rightarrow> (u64 \<times> u64) list \<Rightarrow> u64 \<Rightarrow> u64" where
  "spec_run_chunks T [] reg = reg"
| "spec_run_chunks T ((a, b) # cs) reg =
     spec_run_chunks T cs (kernel_launch (launch_threads (chunk_grid a b)) T a b reg)"

fun spec_valid_partition :: "u64 \<Rightarrow> u64 \<Rightarrow> (u64 \<times> u64) list \<Rightarrow> bool" where
  "spec_valid_partition lo hi [] = False"
| "spec_valid_partition lo hi ((a, b) # cs) =
     (a = lo \<and> a \<le> b \<and> b \<le> hi \<and> unat b - unat a < unat CHUNK_SIZE \<and>
      (if b = hi then cs = [] else spec_valid_partition (b + 1) hi cs))"

text \<open>
  The two ways in which the command ends after its arguments are accepted, as \<open>main\<close>
  builds them: a completed run prints the header, the time, the verdict on the result
  of the search and the closing block, and exits with code 0; a run in which the call
  of a site fails prints the fatal line on the error stream, after what it had printed
  before, and exits with \<^verbatim>\<open>EXIT_FAILURE\<close>, which is 1.
\<close>

definition completed_run :: "u64 \<Rightarrow> u64 \<Rightarrow> run" where
  "completed_run T n_max =
     \<lparr>exit_code = 0, err = [],
      out = header T n_max @
        [Timing,
         if spec_scan T n_max = ULLONG_MAX then NoEta n_max
         else EtaFound (spec_scan T n_max) (4 * spec_scan T n_max - 2),
         Meta T n_max]\<rparr>"

definition fatal_run :: "cuda_site \<Rightarrow> out_line list \<Rightarrow> run" where
  "fatal_run site printed = \<lparr>exit_code = 1, err = [Fatal site], out = printed\<rparr>"

section \<open>Evaluation of the leaf functions\<close>

lemmas isqrt_defs = isqrt_uint64_def isqrt_seed_def to_double_def newton_step_def Let_def

lemmas filter_defs = Q_def is_qr_mod_def residue_total_def r23_def r29_def

lemmas kernel_defs = eta_congruent_kernel_def thread_eta_def BLOCK_SIZE_def
  ETA_CEILING_def ULLONG_MAX_def

lemma all_less_numeral:
  "(\<forall>x<numeral k. P x) \<longleftrightarrow> P (pred_numeral k) \<and> (\<forall>x<pred_numeral k. P x)"
  by (simp add: numeral_eq_Suc All_less_Suc)

lemma no_square_is_22_mod_23: "\<forall>x<23. x * x mod 23 \<noteq> (22::nat)"
  by (simp add: all_less_numeral)

text \<open>
  C1. The claim: for every 64-bit candidate the verification (seed, three Newton steps,
  correction, \<open>y * y = candidate\<close>) accepts exactly the perfect squares, the computed
  root being the floor of the square root. The code at the candidate 196: the seed is
  99, the three steps give 50, 26 and 16, the correction gives 15, and \<open>15 * 15\<close> is not
  196, although \<open>196 = 14 * 14\<close>. With \<open>T = 195\<close> the worker of index 1 has this
  candidate, passes the filter and reports no square. The square 169 is missed in the
  same way, with the root 14.
\<close>

theorem isqrt_uint64_misses_196:
  "isqrt_uint64 196 = 15 \<and> \<not> verify_square 196 \<and> (196::nat) = 14 * 14
   \<and> eta_congruent_kernel 195 1 1 0 0 = NotSquare
   \<and> isqrt_uint64 169 = 14 \<and> \<not> verify_square 169 \<and> (169::nat) = 13 * 13"
  by (simp add: verify_square_def isqrt_defs kernel_defs filter_defs)

text \<open>
  C2. The claim: for every modulus of the fixed set and every \<open>v\<close> below it, the filter
  accepts \<open>v\<close> exactly when \<open>v\<close> is a square modulo the modulus. The table of 23 holds
  22, which is no square modulo 23: the filter accepts it.
\<close>

theorem is_qr_mod_accepts_22_mod_23:
  "is_qr_mod 22 23 \<and> \<not> (\<exists>x<23. x * x mod 23 = (22::nat))"
  using no_square_is_22_mod_23 by (simp add: is_qr_mod_def r23_def)

section \<open>Residues and guards\<close>

lemma mod_mod_word: "(v mod m) mod m = v mod (m::u64)"
  by (rule word_unat_eq_iff[THEN iffD2]) (simp add: unat_mod)

lemma is_qr_mod_mod: "is_qr_mod (v mod word_of_int q) q = is_qr_mod v q"
  by (simp only: is_qr_mod_def mod_mod_word)

lemma Q_cases:
  "q \<in> set Q \<Longrightarrow> q = 3 \<or> q = 5 \<or> q = 7 \<or> q = 11 \<or> q = 13 \<or> q = 17 \<or> q = 19 \<or> q = 23 \<or> q = 29"
  by (simp add: Q_def)

lemma unat_modulus: "q \<in> set Q \<Longrightarrow> unat (word_of_int q :: u64) = nat q"
  by (auto dest!: Q_cases)

lemma add_mod_word:
  assumes "unat T + unat d2 < 2 ^ 64"
  shows "(T mod m + d2 mod m) mod m = (T + d2) mod (m::u64)"
proof -
  have a: "unat (T + d2) = unat T + unat d2"
    using assms by (simp add: unat_add_lem[THEN iffD1])
  have "unat (T mod m) \<le> unat T" "unat (d2 mod m) \<le> unat d2"
    by (simp_all add: unat_mod)
  hence b: "unat (T mod m + d2 mod m) = unat (T mod m) + unat (d2 mod m)"
    using assms by (intro unat_add_lem[THEN iffD1]) simp
  show ?thesis
    by (rule word_unat_eq_iff[THEN iffD2]) (simp add: unat_mod a b mod_add_eq)
qed

text \<open>
  C7. For every modulus \<open>q\<close> of the fixed set and every \<open>T\<close>, \<open>d2\<close> whose sum does not
  overflow 64 bits, the value \<^verbatim>\<open>(T % q + d2 % q) % q\<close> of the kernel is the candidate
  \<open>T + d2\<close> reduced modulo \<open>q\<close>, as a word and as a natural number; the verdict of the
  filter on it is the verdict on the candidate; and \<open>is_qr_mod v q\<close> depends on \<open>v\<close>
  through \<open>v mod q\<close> only.
\<close>

theorem residue_total_is_candidate_mod:
  assumes "q \<in> set Q" and "unat T + unat d2 < 2 ^ 64"
  shows "residue_total T d2 q = (T + d2) mod word_of_int q
    \<and> unat (residue_total T d2 q) = (unat T + unat d2) mod nat q
    \<and> is_qr_mod (residue_total T d2 q) q = is_qr_mod (T + d2) q
    \<and> is_qr_mod v q = is_qr_mod (v mod word_of_int q) q"
proof -
  have r: "residue_total T d2 q = (T + d2) mod word_of_int q"
    unfolding residue_total_def using assms(2) by (rule add_mod_word)
  have "unat (T + d2) = unat T + unat d2"
    using assms(2) by (simp add: unat_add_lem[THEN iffD1])
  hence u: "unat (residue_total T d2 q) = (unat T + unat d2) mod nat q"
    by (simp add: r unat_mod unat_modulus[OF assms(1)])
  show ?thesis
    using u by (simp add: r is_qr_mod_mod)
qed

theorem residue_total_is_candidate_mod_witness:
  "(7::int) \<in> set Q \<and> unat (10::u64) + unat (25::u64) < 2 ^ 64
   \<and> residue_total 10 25 7 = 0 \<and> (10 + 25 :: u64) mod word_of_int 7 = 0
   \<and> is_qr_mod (residue_total 10 25 7) 7 \<and> is_qr_mod (10 + 25) 7"
  using residue_total_is_candidate_mod [of 7 10 25 0]
  by (simp add: Q_def residue_total_def is_qr_mod_def)

lemma d2_exact:
  assumes "eta \<noteq> 0" and "eta \<le> ETA_CEILING"
  shows "unat ((2 * eta - 1) * (2 * eta - 1)) = (2 * unat eta - 1)\<^sup>2"
    and "(2 * unat eta - 1)\<^sup>2 < 2 ^ 63"
proof -
  define u where "u = unat eta"
  have u1: "1 \<le> u" using assms(1) by (simp add: u_def unat_gt_0 Suc_le_eq)
  have u2: "u \<le> 1518500249"
    using assms(2) by (simp add: u_def ETA_CEILING_def word_le_nat_alt)
  have d: "2 * u - 1 \<le> 3037000497" using u2 by linarith
  have "(2 * u - 1) * (2 * u - 1) \<le> 3037000497 * 3037000497"
    by (intro mult_le_mono d)
  hence sq: "(2 * u - 1) * (2 * u - 1) < 2 ^ 63" by simp
  have "eta = of_nat u" by (simp add: u_def)
  hence "2 * eta - 1 = of_nat (2 * u - 1)" using u1 by (simp add: of_nat_diff)
  hence "(2 * eta - 1) * (2 * eta - 1) = of_nat ((2 * u - 1) * (2 * u - 1))" by simp
  hence "unat ((2 * eta - 1) * (2 * eta - 1)) = ((2 * u - 1) * (2 * u - 1)) mod 2 ^ 64"
    by (simp only: unat_of_nat) simp
  also have "\<dots> = (2 * u - 1) * (2 * u - 1)" using sq by simp
  finally show "unat ((2 * eta - 1) * (2 * eta - 1)) = (2 * unat eta - 1)\<^sup>2"
    by (simp add: u_def power2_eq_square)
  show "(2 * unat eta - 1)\<^sup>2 < 2 ^ 63" using sq by (simp add: u_def power2_eq_square)
qed

lemma overflow_guard:
  "ULLONG_MAX - T < d2 \<longleftrightarrow> 2 ^ 64 \<le> unat T + unat d2"
proof -
  have "unat (ULLONG_MAX - T) = 2 ^ 64 - 1 - unat T"
    unfolding ULLONG_MAX_def by (subst unat_sub) (simp_all add: unsigned_minus_1_eq_mask mask_eq_exp_minus_1)
  moreover have "unat T < 2 ^ 64" using unsigned_less [of T, where ?'a = nat] by simp
  ultimately show ?thesis by (simp add: word_less_nat_alt) linarith
qed

lemma kernel_Hit_iff:
  "eta_congruent_kernel T n_start n_end blk thr = Hit e \<longleftrightarrow>
     e = thread_eta n_start blk thr \<and> e \<le> n_end \<and> index_test T e"
  by (auto simp: eta_congruent_kernel_def index_test_def verify_square_def Let_def not_less)

text \<open>
  C5. Whatever \<open>T\<close>, the chunk bounds and the worker: a worker whose index is above the
  ceiling 1518500249 is skipped, also when \<open>n_end\<close> is above the ceiling; a worker whose
  \<open>T + (2 * eta - 1)\<^sup>2\<close> does not fit 64 bits is skipped; and a skipped worker leaves the
  register as it is.
\<close>

theorem kernel_skips_beyond_bounds:
  "(ETA_CEILING < thread_eta n_start blk thr \<longrightarrow>
      eta_congruent_kernel T n_start n_end blk thr = Skipped)
   \<and> (2 ^ 64 \<le> unat T + (2 * unat (thread_eta n_start blk thr) - 1)\<^sup>2 \<longrightarrow>
      eta_congruent_kernel T n_start n_end blk thr = Skipped)
   \<and> atomicMin Skipped reg = reg"
proof -
  define eta where "eta = thread_eta n_start blk thr"
  have a: "ETA_CEILING < eta \<Longrightarrow> eta_congruent_kernel T n_start n_end blk thr = Skipped"
    by (simp add: eta_congruent_kernel_def eta_def Let_def)
  have b: "eta_congruent_kernel T n_start n_end blk thr = Skipped"
    if h: "2 ^ 64 \<le> unat T + (2 * unat eta - 1)\<^sup>2"
  proof (cases "n_end < eta \<or> eta = 0 \<or> ETA_CEILING < eta")
    case True
    then show ?thesis by (auto simp: eta_congruent_kernel_def eta_def Let_def)
  next
    case False
    hence "eta \<noteq> 0" "eta \<le> ETA_CEILING" by (simp_all add: not_less)
    hence "unat ((2 * eta - 1) * (2 * eta - 1)) = (2 * unat eta - 1)\<^sup>2"
      by (rule d2_exact(1))
    hence "ULLONG_MAX - T < (2 * eta - 1) * (2 * eta - 1)"
      using h by (simp add: overflow_guard)
    then show ?thesis
      using False by (simp add: eta_congruent_kernel_def eta_def[symmetric] Let_def)
  qed
  show ?thesis using a b by (simp add: eta_def)
qed

theorem kernel_skips_beyond_bounds_witness:
  "ETA_CEILING < thread_eta 1518500250 0 0
   \<and> eta_congruent_kernel 3 1518500250 ULLONG_MAX 0 0 = Skipped
   \<and> (2::nat) ^ 64 \<le> unat (ULLONG_MAX - 8) + (2 * unat (thread_eta 2 0 0) - 1)\<^sup>2
   \<and> eta_congruent_kernel (ULLONG_MAX - 8) 2 ULLONG_MAX 0 0 = Skipped
   \<and> eta_congruent_kernel 3 1518500249 ULLONG_MAX 0 0 \<noteq> Skipped"
proof -
  have 1: "ETA_CEILING < thread_eta 1518500250 0 0"
    by (simp add: thread_eta_def ETA_CEILING_def)
  have 2: "(2::nat) ^ 64 \<le> unat (ULLONG_MAX - 8) + (2 * unat (thread_eta 2 0 0) - 1)\<^sup>2"
    by (simp add: thread_eta_def ULLONG_MAX_def)
  have 3: "eta_congruent_kernel 3 1518500249 ULLONG_MAX 0 0 \<noteq> Skipped"
    by (simp add: kernel_defs filter_defs)
  from kernel_skips_beyond_bounds [of 1518500250 0 0 3 ULLONG_MAX 0]
    kernel_skips_beyond_bounds [of 2 0 0 "ULLONG_MAX - 8" ULLONG_MAX 0] 1 2 3
  show ?thesis by blast
qed

section \<open>Squares pass the filter\<close>

lemma squares_mod_3: "\<forall>r<3. is_qr_mod (of_nat (r * r mod 3)) 3"
  by (simp add: all_less_numeral is_qr_mod_def)
lemma squares_mod_5: "\<forall>r<5. is_qr_mod (of_nat (r * r mod 5)) 5"
  by (simp add: all_less_numeral is_qr_mod_def)
lemma squares_mod_7: "\<forall>r<7. is_qr_mod (of_nat (r * r mod 7)) 7"
  by (simp add: all_less_numeral is_qr_mod_def)
lemma squares_mod_11: "\<forall>r<11. is_qr_mod (of_nat (r * r mod 11)) 11"
  by (simp add: all_less_numeral is_qr_mod_def)
lemma squares_mod_13: "\<forall>r<13. is_qr_mod (of_nat (r * r mod 13)) 13"
  by (simp add: all_less_numeral is_qr_mod_def)
lemma squares_mod_17: "\<forall>r<17. is_qr_mod (of_nat (r * r mod 17)) 17"
  by (simp add: all_less_numeral is_qr_mod_def)
lemma squares_mod_19: "\<forall>r<19. is_qr_mod (of_nat (r * r mod 19)) 19"
  by (simp add: all_less_numeral is_qr_mod_def)
lemma squares_mod_23: "\<forall>r<23. is_qr_mod (of_nat (r * r mod 23)) 23"
  by (simp add: all_less_numeral is_qr_mod_def r23_def)
lemma squares_mod_29: "\<forall>r<29. is_qr_mod (of_nat (r * r mod 29)) 29"
  by (simp add: all_less_numeral is_qr_mod_def r29_def)

lemma square_residue_accepted:
  assumes "q \<in> set Q" and "r < nat q"
  shows "is_qr_mod (of_nat (r * r mod nat q)) q"
  using Q_cases [OF assms(1)] assms(2)
    squares_mod_3 squares_mod_5 squares_mod_7 squares_mod_11 squares_mod_13
    squares_mod_17 squares_mod_19 squares_mod_23 squares_mod_29
  by (elim disjE) simp_all

lemma survive_loop_all:
  "survive_loop T d2 qs \<longleftrightarrow> (\<forall>q\<in>set qs. is_qr_mod (residue_total T d2 q) q)"
  by (induction qs) simp_all

lemma square_candidate_accepted:
  assumes q: "q \<in> set Q" and fit: "unat T + unat d2 < 2 ^ 64"
    and sq: "unat T + unat d2 = k\<^sup>2"
  shows "is_qr_mod (residue_total T d2 q) q"
proof -
  have pos: "0 < nat q" using Q_cases [OF q] by auto
  have r: "residue_total T d2 q = (T + d2) mod word_of_int q"
    unfolding residue_total_def using fit by (rule add_mod_word)
  have "unat (T + d2) = k\<^sup>2"
    using fit sq by (simp add: unat_add_lem[THEN iffD1])
  hence "unat ((T + d2) mod word_of_int q) = k\<^sup>2 mod nat q"
    by (simp add: unat_mod unat_modulus [OF q])
  also have "\<dots> = (k mod nat q) * (k mod nat q) mod nat q"
    by (simp add: power2_eq_square mod_mult_eq)
  finally have e: "unat ((T + d2) mod word_of_int q) = (k mod nat q) * (k mod nat q) mod nat q" .
  have "(T + d2) mod word_of_int q = of_nat (unat ((T + d2) mod word_of_int q))"
    by simp
  hence "(T + d2) mod word_of_int q = of_nat ((k mod nat q) * (k mod nat q) mod nat q)"
    by (simp only: e)
  moreover have "k mod nat q < nat q" using pos by simp
  ultimately show ?thesis
    using square_residue_accepted [OF q] by (simp add: r)
qed

text \<open>
  C6. The filter has no false negative: for an index \<open>eta\<close> in the evaluated range (not
  zero, at most the ceiling, \<open>T + (2 * eta - 1)\<^sup>2\<close> within 64 bits) whose candidate is a
  perfect square \<open>k\<^sup>2\<close>, every one of the nine moduli accepts, the loop over them leaves
  \<open>survive\<close> true, and the worker of that index goes on to the exact verification: its
  outcome is \<open>NotSquare\<close> or \<open>Hit eta\<close>, never \<open>Skipped\<close> or \<open>Filtered\<close>.
\<close>

theorem residue_filter_no_false_negative:
  assumes "eta \<noteq> 0" and "eta \<le> ETA_CEILING"
    and "unat T + (2 * unat eta - 1)\<^sup>2 < 2 ^ 64"
    and "unat T + (2 * unat eta - 1)\<^sup>2 = k\<^sup>2"
  shows "(\<forall>q\<in>set Q. is_qr_mod (residue_total T ((2 * eta - 1) * (2 * eta - 1)) q) q)
    \<and> survive_loop T ((2 * eta - 1) * (2 * eta - 1)) Q
    \<and> (thread_eta n_start blk thr = eta \<longrightarrow> eta \<le> n_end \<longrightarrow>
         eta_congruent_kernel T n_start n_end blk thr \<in> {NotSquare, Hit eta})"
proof -
  define d2 where "d2 = (2 * eta - 1) * (2 * eta - 1)"
  have u: "unat d2 = (2 * unat eta - 1)\<^sup>2"
    unfolding d2_def using assms(1,2) by (rule d2_exact(1))
  have all: "\<forall>q\<in>set Q. is_qr_mod (residue_total T d2 q) q"
    using assms(3,4) by (auto intro!: square_candidate_accepted [where k = k] simp: u)
  hence surv: "survive_loop T d2 Q" by (simp add: survive_loop_all)
  have guard: "\<not> ULLONG_MAX - T < d2"
    using assms(3) by (simp add: overflow_guard u)
  have "eta_congruent_kernel T n_start n_end blk thr \<in> {NotSquare, Hit eta}"
    if "thread_eta n_start blk thr = eta" "eta \<le> n_end"
    using that assms(1,2) surv guard
    by (simp add: eta_congruent_kernel_def Let_def not_less d2_def)
  thus ?thesis using all surv by (simp add: d2_def)
qed

theorem residue_filter_no_false_negative_witness:
  "(1::u64) \<noteq> 0 \<and> (1::u64) \<le> ETA_CEILING
   \<and> unat (195::u64) + (2 * unat (1::u64) - 1)\<^sup>2 < 2 ^ 64
   \<and> unat (195::u64) + (2 * unat (1::u64) - 1)\<^sup>2 = 14\<^sup>2
   \<and> survive_loop 195 ((2 * 1 - 1) * (2 * 1 - 1)) Q
   \<and> eta_congruent_kernel 195 1 1 0 0 \<in> {NotSquare, Hit 1}"
proof -
  have h: "(1::u64) \<noteq> 0" "(1::u64) \<le> ETA_CEILING"
    "unat (195::u64) + (2 * unat (1::u64) - 1)\<^sup>2 < 2 ^ 64"
    "unat (195::u64) + (2 * unat (1::u64) - 1)\<^sup>2 = 14\<^sup>2"
    by (simp_all add: ETA_CEILING_def)
  have t: "thread_eta 1 0 0 = 1" by (simp add: thread_eta_def)
  from residue_filter_no_false_negative [OF h, of 1 0 0 1] t h
  show ?thesis by simp
qed

section \<open>A launch as a minimum\<close>

lemma Min_insert_min:
  fixes a :: "'a::linorder"
  assumes "finite S"
  shows "Min (insert (min a b) S) = Min (insert a (insert b S))"
proof (cases "S = {}")
  case True
  then show ?thesis by simp
next
  case False
  then show ?thesis using assms by (simp add: min.assoc)
qed

lemma fold_atomicMin:
  "fold (\<lambda>w. atomicMin (g w)) ws reg = Min (insert reg {e. \<exists>w\<in>set ws. g w = Hit e})"
proof (induction ws arbitrary: reg)
  case Nil
  then show ?case by simp
next
  case (Cons w ws)
  let ?S = "{e. \<exists>w\<in>set ws. g w = Hit e}"
  show ?case
  proof (cases "g w")
    case (Hit e)
    have "{e. \<exists>w'\<in>set (w # ws). g w' = Hit e} = insert e ?S"
      using Hit by auto
    then show ?thesis
      using Hit Cons.IH [of "min reg e"] by (simp add: Min_insert_min)
  qed (use Cons.IH [of reg] in \<open>simp_all\<close>)
qed

lemma kernel_launch_Min:
  "kernel_launch sched T n0 n1 reg =
     Min (insert reg {e. \<exists>(blk, thr)\<in>set sched. eta_congruent_kernel T n0 n1 blk thr = Hit e})"
proof -
  have "kernel_launch sched T n0 n1 reg =
      fold (\<lambda>w. atomicMin (case w of (blk, thr) \<Rightarrow> eta_congruent_kernel T n0 n1 blk thr)) sched reg"
    by (simp add: kernel_launch_def split_def)
  then show ?thesis by (simp add: fold_atomicMin split_def)
qed

lemma kernel_launch_le: "kernel_launch sched T n0 n1 reg \<le> reg"
  by (simp add: kernel_launch_Min)

lemma kernel_launch_cases:
  "kernel_launch sched T n0 n1 reg = reg \<or>
   (kernel_launch sched T n0 n1 reg \<le> n1 \<and> index_test T (kernel_launch sched T n0 n1 reg))"
proof -
  let ?S = "insert reg {e. \<exists>(blk, thr)\<in>set sched. eta_congruent_kernel T n0 n1 blk thr = Hit e}"
  have "Min ?S \<in> ?S" by (rule Min_in) simp_all
  then show ?thesis
    unfolding kernel_launch_Min by (auto simp: kernel_Hit_iff)
qed

text \<open>The order of the workers does not matter.\<close>

lemma kernel_launch_schedule:
  "set sched = set sched' \<Longrightarrow> kernel_launch sched T n0 n1 reg = kernel_launch sched' T n0 n1 reg"
  by (simp add: kernel_launch_Min)

lemma unat_CHUNK_SIZE: "unat CHUNK_SIZE = 16776960"
  by (simp add: CHUNK_SIZE_def BLOCK_SIZE_def MAX_GRID_DIM_def)

lemma chunk_grid_regular:
  assumes "n0 \<le> n1" and "unat n1 - unat n0 < 16776960"
  shows "unat (chunk_grid n0 n1) = (unat n1 - unat n0) div 256 + 1"
proof -
  define m where "m = unat n1 - unat n0"
  define x where "x = n1 - n0 + 256"
  have m: "unat (n1 - n0) = m" using assms(1) by (simp add: m_def unat_sub)
  have eq: "n1 - n0 + 1 + of_nat BLOCK_SIZE - 1 = x"
    by (simp add: BLOCK_SIZE_def x_def)
  have ux: "unat x = m + 256"
    unfolding x_def using assms(2) by (subst unat_add_lem[THEN iffD1]) (simp_all add: m m_def)
  have "unat (x div 256) = (m + 256) div 256"
    by (simp add: unat_div ux)
  moreover have "(m + 256) div 256 = m div 256 + 1" by simp
  moreover have "m div 256 + 1 < 2 ^ 32" using assms(2) by (simp add: m_def)
  ultimately have "unat (ucast (x div 256) :: 32 word) = m div 256 + 1"
    by (simp add: unsigned_ucast_eq take_bit_nat_eq_self)
  then show ?thesis
    by (simp only: chunk_grid_def eq) (simp add: BLOCK_SIZE_def m_def)
qed

lemma thread_eta_offset: "thread_eta n0 blk thr = n0 + of_nat (blk * 256 + thr)"
  by (simp add: thread_eta_def BLOCK_SIZE_def)

lemma in_launch_threads:
  "(blk, thr) \<in> set (launch_threads g) \<longleftrightarrow> blk < unat g \<and> thr < 256"
  by (auto simp: launch_threads_def BLOCK_SIZE_def image_iff)

lemma launch_hits:
  assumes le: "n0 \<le> n1" and size: "unat n1 - unat n0 < 16776960"
    and fit: "unat n0 + 16776960 \<le> 2 ^ 64"
  shows "{e. \<exists>(blk, thr)\<in>set (launch_threads (chunk_grid n0 n1)).
            eta_congruent_kernel T n0 n1 blk thr = Hit e} = passing T n0 n1"
    (is "?H = _")
proof -
  define m where "m = unat n1 - unat n0"
  have g: "unat (chunk_grid n0 n1) = m div 256 + 1"
    unfolding m_def using le size by (rule chunk_grid_regular)
  have m: "m < 16776960" "unat n1 = unat n0 + m"
    using le size by (simp_all add: m_def word_le_nat_alt)
  have off: "unat (n0 + of_nat i) = unat n0 + i" if "i < 16776960" for i
  proof -
    have "unat (of_nat i :: u64) = i" using that by (simp add: unat_of_nat)
    then show ?thesis
      using that fit by (subst unat_add_lem[THEN iffD1]) simp_all
  qed
  show ?thesis
  proof (intro set_eqI iffI)
    fix e assume "e \<in> ?H"
    then obtain blk thr where bt: "blk < m div 256 + 1" "thr < 256"
      and hit: "eta_congruent_kernel T n0 n1 blk thr = Hit e"
      by (auto simp: in_launch_threads g)
    have "m div 256 < 65535" using m(1) by (simp add: less_mult_imp_div_less)
    hence i: "blk * 256 + thr < 16776960" using bt by linarith
    have e: "e = thread_eta n0 blk thr" "e \<le> n1" "index_test T e"
      using hit unfolding kernel_Hit_iff by blast+
    have "e = n0 + of_nat (blk * 256 + thr)"
      unfolding e(1) by (rule thread_eta_offset)
    hence "n0 \<le> e" using off [OF i] by (simp only: word_le_nat_alt)
    then show "e \<in> passing T n0 n1" using e(2,3) by (simp add: passing_def)
  next
    fix e assume "e \<in> passing T n0 n1"
    hence e: "n0 \<le> e" "e \<le> n1" "index_test T e" by (simp_all add: passing_def)
    define i where "i = unat e - unat n0"
    have i: "i \<le> m" "unat e = unat n0 + i"
      using e(1,2) m(2) by (simp_all add: i_def word_le_nat_alt)
    have "unat (n0 + of_nat i) = unat e" using off [of i] i m(1) by simp
    hence ee: "e = n0 + of_nat i" by (simp add: word_unat_eq_iff)
    have "i = (i div 256) * 256 + i mod 256" by simp
    hence "thread_eta n0 (i div 256) (i mod 256) = e"
      by (simp only: thread_eta_offset ee)
    hence "eta_congruent_kernel T n0 n1 (i div 256) (i mod 256) = Hit e"
      using e by (simp add: kernel_Hit_iff)
    moreover have "i div 256 < m div 256 + 1" using i(1) by (simp add: div_le_mono less_Suc_eq_le)
    ultimately show "e \<in> ?H"
      by (auto simp: in_launch_threads g intro!: bexI [of _ "(i div 256, i mod 256)"])
  qed
qed

lemma kernel_launch_regular:
  assumes "n0 \<le> n1" and "unat n1 - unat n0 < 16776960" and "unat n0 + 16776960 \<le> 2 ^ 64"
  shows "kernel_launch (launch_threads (chunk_grid n0 n1)) T n0 n1 reg =
         Min (insert reg (passing T n0 n1))"
  by (simp only: kernel_launch_Min launch_hits [OF assms])

section \<open>The dispatch loop\<close>

lemma Min_insert_Min:
  fixes reg :: "'a::linorder"
  assumes "finite A" and "finite B"
  shows "Min (insert (Min (insert reg A)) B) = Min (insert reg (A \<union> B))"
proof (cases "B = {}")
  case True
  then show ?thesis by simp
next
  case False
  have "Min (insert reg A \<union> B) = min (Min (insert reg A)) (Min B)"
    using assms False by (intro Min_Un) simp_all
  then show ?thesis using assms False by simp
qed

lemma chunk_end_facts:
  assumes le: "n0 \<le> n_max" and fit: "unat n_max + 16776960 < 2 ^ 64"
  shows "unat (n0 + CHUNK_SIZE) = unat n0 + 16776960"
    and "unat (chunk_end n_max n0) = min (unat n0 + 16776959) (unat n_max)"
proof -
  have u: "unat n0 \<le> unat n_max" using le by (simp add: word_le_nat_alt)
  show a: "unat (n0 + CHUNK_SIZE) = unat n0 + 16776960"
    using u fit by (subst unat_add_lem[THEN iffD1]) (simp_all add: unat_CHUNK_SIZE)
  have b: "unat (n0 + CHUNK_SIZE - 1) = unat n0 + 16776959"
    by (subst unat_sub) (simp_all add: word_le_nat_alt a)
  show "unat (chunk_end n_max n0) = min (unat n0 + 16776959) (unat n_max)"
    by (simp add: chunk_end_def word_less_nat_alt b min_def)
qed

lemma passing_split:
  assumes le: "n0 \<le> n_max" and fit: "unat n_max + 16776960 < 2 ^ 64"
  shows "passing T n0 (chunk_end n_max n0) \<union> passing T (n0 + CHUNK_SIZE) n_max
         = passing T n0 n_max"
  using chunk_end_facts [OF assms]
  by (auto simp: passing_def word_le_nat_alt min_def split: if_splits)

lemma chunk_next_near:
  assumes "unat n0 + 16776960 < 2 ^ 64"
  shows "unat (n0 + CHUNK_SIZE) = unat n0 + 16776960"
  using assms by (subst unat_add_lem[THEN iffD1]) (simp_all add: unat_CHUNK_SIZE)

lemma chunk_end_near:
  assumes "unat n0 + 16776960 < 2 ^ 64"
  shows "unat (chunk_end n_max n0) = min (unat n0 + 16776959) (unat n_max)"
proof -
  have "unat (n0 + CHUNK_SIZE - 1) = unat n0 + 16776959"
    by (subst unat_sub) (simp_all add: word_le_nat_alt chunk_next_near [OF assms])
  then show ?thesis
    by (simp add: chunk_end_def word_less_nat_alt min_def)
qed

lemma passing_split_near:
  assumes "unat n0 + 16776960 < 2 ^ 64"
  shows "passing T n0 (chunk_end n_max n0) \<union> passing T (n0 + CHUNK_SIZE) n_max
         = passing T n0 n_max"
  using chunk_end_near [OF assms, of n_max] chunk_next_near [OF assms]
  by (auto simp: passing_def word_le_nat_alt min_def split: if_splits)

lemma dispatch_loop_total:
  assumes fit: "unat n_max + 16776960 < 2 ^ 64" and nof: "\<And>j. flt \<noteq> Some (Launch j)"
  shows "dispatch_loop flt T n_max k n0 reg = Some (Inr (Min (insert reg (passing T n0 n_max))))"
proof (induction "unat n_max + 1 - unat n0" arbitrary: k n0 reg rule: less_induct)
  case less
  show ?case
  proof (cases "n0 \<le> n_max")
    case False
    hence "passing T n0 n_max = {}" by (auto simp: passing_def)
    then show ?thesis using False by (subst dispatch_loop.simps) simp
  next
    case True
    define n1 where "n1 = chunk_end n_max n0"
    define reg' where "reg' = kernel_launch (launch_threads (chunk_grid n0 n1)) T n0 n1 reg"
    note ce = chunk_end_facts [OF True fit, folded n1_def]
    have u: "unat n0 \<le> unat n_max" using True by (simp add: word_le_nat_alt)
    have "n0 \<le> n1" "unat n1 - unat n0 < 16776960" "unat n0 + 16776960 \<le> 2 ^ 64"
      using ce u fit by (simp_all add: word_le_nat_alt)
    hence r: "reg' = Min (insert reg (passing T n0 n1))"
      unfolding reg'_def by (rule kernel_launch_regular)
    have "unat n_max + 1 - unat (n0 + CHUNK_SIZE) < unat n_max + 1 - unat n0"
      using ce(1) u by simp
    hence "dispatch_loop flt T n_max (Suc k) (n0 + CHUNK_SIZE) reg' =
        Some (Inr (Min (insert reg' (passing T (n0 + CHUNK_SIZE) n_max))))"
      by (rule less)
    also have "Min (insert reg' (passing T (n0 + CHUNK_SIZE) n_max)) =
        Min (insert reg (passing T n0 n_max))"
      unfolding r n1_def by (simp add: Min_insert_Min passing_split [OF True fit])
    finally show ?thesis
      using True nof by (subst dispatch_loop.simps) (simp add: Let_def n1_def reg'_def)
  qed
qed

lemma dispatch_loop_partial:
  assumes "dispatch_loop flt T n_max k n0 reg = Some y"
  shows "\<forall>r. y = Inr r \<longrightarrow> r \<le> reg \<and> (r = reg \<or> (r \<le> n_max \<and> index_test T r))"
proof (rule dispatch_loop.raw_induct [where P = "\<lambda>flt T n_max k n0 reg y.
    \<forall>r. y = Inr r \<longrightarrow> r \<le> reg \<and> (r = reg \<or> (r \<le> n_max \<and> index_test T r))", OF _ assms],
    goal_cases)
  case (1 loop flt T n_max k n0 reg y)
  show ?case
  proof (cases "n0 \<le> n_max")
    case False
    hence "y = Inr reg" using 1(2) by simp
    then show ?thesis by simp
  next
    case True
    define n1 where "n1 = chunk_end n_max n0"
    define reg' where "reg' = kernel_launch (launch_threads (chunk_grid n0 n1)) T n0 n1 reg"
    have n1: "n1 \<le> n_max" by (simp add: n1_def chunk_end_def less_imp_le)
    have le: "reg' \<le> reg" unfolding reg'_def by (rule kernel_launch_le)
    have cs: "reg' = reg \<or> (reg' \<le> n1 \<and> index_test T reg')"
      unfolding reg'_def by (rule kernel_launch_cases)
    show ?thesis
    proof (cases "flt = Some (Launch k)")
      case True
      hence "y = Inl (CudaFatal (Launch k))"
        using 1(2) \<open>n0 \<le> n_max\<close> by (simp add: Let_def)
      then show ?thesis by simp
    next
      case False
      hence "loop flt T n_max (Suc k) (n0 + CHUNK_SIZE) reg' = Some y"
        using 1(2) True by (simp add: Let_def n1_def reg'_def)
      from 1(1) [OF this]
      have ih: "\<forall>r. y = Inr r \<longrightarrow> r \<le> reg' \<and> (r = reg' \<or> (r \<le> n_max \<and> index_test T r))" .
      show ?thesis
      proof (intro allI impI)
        fix r assume "y = Inr r"
        with ih have a: "r \<le> reg'" and b: "r = reg' \<or> (r \<le> n_max \<and> index_test T r)"
          by blast+
        have c: "r \<le> reg" using a le by (rule order_trans)
        have "r = reg \<or> (r \<le> n_max \<and> index_test T r)"
        proof (cases "r = reg'")
          case True
          from cs show ?thesis
          proof
            assume "reg' = reg"
            then show ?thesis using True by simp
          next
            assume "reg' \<le> n1 \<and> index_test T reg'"
            hence "r \<le> n_max" "index_test T r"
              using True n1 order_trans [of reg' n1 n_max] by simp_all
            then show ?thesis by simp
          qed
        next
          case False
          then show ?thesis using b by simp
        qed
        with c show "r \<le> reg \<and> (r = reg \<or> (r \<le> n_max \<and> index_test T r))" ..
      qed
    qed
  qed
qed

lemma dispatch_loop_diverges_aux:
  assumes "dispatch_loop flt T n_max k n0 reg = Some y"
  shows "\<not> (2 ^ 64 - 255 \<le> unat n_max \<and> unat n0 mod 256 = 1 \<and> (\<forall>j. flt \<noteq> Some (Launch j)))"
proof (rule dispatch_loop.raw_induct [where P = "\<lambda>flt T n_max k n0 reg y.
    \<not> (2 ^ 64 - 255 \<le> unat n_max \<and> unat n0 mod 256 = 1 \<and> (\<forall>j. flt \<noteq> Some (Launch j)))",
    OF _ assms], goal_cases)
  case (1 loop flt T n_max k n0 reg y)
  show ?case
  proof
  assume h: "2 ^ 64 - 255 \<le> unat n_max \<and> unat n0 mod 256 = 1 \<and> (\<forall>j. flt \<noteq> Some (Launch j))"
  have "unat n0 < 2 ^ 64" using unsigned_less [of n0, where ?'a = nat] by simp
  moreover have "unat n0 = 256 * (unat n0 div 256) + 1"
    using h mult_div_mod_eq [of 256 "unat n0"] by simp
  ultimately have "unat n0 div 256 < 72057594037927936"
      "unat n0 = 256 * (unat n0 div 256) + 1"
    by simp_all
  hence "unat n0 \<le> 18446744073709551361" by linarith
  hence "unat n0 \<le> 2 ^ 64 - 255" by simp
  hence le: "n0 \<le> n_max" using h by (simp add: word_le_nat_alt)
  have "unat (n0 + CHUNK_SIZE) = (unat n0 + 16776960) mod 2 ^ 64"
    by (simp add: unat_word_ariths unat_CHUNK_SIZE)
  hence "unat (n0 + CHUNK_SIZE) mod 256 = (unat n0 + 16776960) mod 256"
    by (simp add: mod_mod_cancel)
  moreover have "(unat n0 + 65535 * 256) mod 256 = unat n0 mod 256"
    by (rule mod_mult_self1)
  ultimately have m: "unat (n0 + CHUNK_SIZE) mod 256 = 1" using h by simp
  from 1(2) le h obtain reg' where "loop flt T n_max (Suc k) (n0 + CHUNK_SIZE) reg' = Some y"
    by (auto simp: Let_def)
  from 1(1) [OF this] h m show False by simp
  qed
qed

lemma dispatch_loop_diverges:
  assumes "2 ^ 64 - 255 \<le> unat n_max" and "unat n0 mod 256 = 1"
    and "\<And>j. flt \<noteq> Some (Launch j)"
  shows "dispatch_loop flt T n_max k n0 reg = None"
proof (cases "dispatch_loop flt T n_max k n0 reg")
  case (Some y)
  from dispatch_loop_diverges_aux [OF this] assms show ?thesis by simp
qed simp

section \<open>The search and the exhaustive scan\<close>

lemma passing_upper: "e \<in> passing T lo hi \<Longrightarrow> e \<le> ETA_CEILING \<and> e \<noteq> 0"
  by (simp add: passing_def index_test_def)

lemma spec_scan_fold:
  "fold (\<lambda>i best. if index_test T (of_nat i) then min best (of_nat i) else best) [a..<b]
       (acc :: u64)
     = Min (insert acc {(of_nat i :: u64) |i. a \<le> i \<and> i < b \<and> index_test T (of_nat i)})"
proof -
  define S where "S = (\<lambda>b. {(of_nat i :: u64) |i. a \<le> i \<and> i < b \<and> index_test T (of_nat i)})"
  define f where "f = (\<lambda>i (best::u64). if index_test T (of_nat i) then min best (of_nat i) else best)"
  have S0: "S 0 = {}" by (simp add: S_def)
  have Sno: "S (Suc b) = {}" if "\<not> a \<le> b" for b
    using that by (auto simp: S_def)
  have Shit: "S (Suc b) = insert (of_nat b) (S b)" if "a \<le> b" "index_test T (of_nat b)" for b
    using that by (auto simp: S_def less_Suc_eq)
  have Smiss: "S (Suc b) = S b" if "\<not> index_test T (of_nat b)" for b
    using that by (auto simp: S_def less_Suc_eq)
  have "fold f [a..<b] acc = Min (insert acc (S b))"
  proof (induction b)
    case 0
    then show ?case by (simp add: S0)
  next
    case (Suc b)
    show ?case
    proof (cases "a \<le> b")
      case False
      then show ?thesis by (simp add: Sno)
    next
      case True
      show ?thesis
      proof (cases "index_test T (of_nat b)")
        case t: True
        have "fold f [a..<Suc b] acc = min (Min (insert acc (S b))) (of_nat b)"
          using True t Suc.IH by (simp add: f_def)
        also have "\<dots> = Min (insert (of_nat b) (insert acc (S b)))"
          by (simp add: min.commute)
        also have "\<dots> = Min (insert acc (S (Suc b)))"
          by (simp only: Shit [OF True t] insert_commute)
        finally show ?thesis .
      next
        case f: False
        have "fold f [a..<Suc b] acc = Min (insert acc (S b))"
          using True f Suc.IH by (simp add: f_def)
        then show ?thesis by (simp only: Smiss [OF f])
      qed
    qed
  qed
  then show ?thesis by (simp only: S_def f_def)
qed

lemma spec_scan_Min: "spec_scan T n_max = Min (insert ULLONG_MAX (passing T 1 n_max))"
proof -
  have "{(of_nat i :: u64) |i. 1 \<le> i \<and> i < Suc (unat n_max) \<and> index_test T (of_nat i)}
      = passing T 1 n_max" (is "?L = ?R")
  proof (intro set_eqI iffI)
    fix e assume "e \<in> ?L"
    then obtain i where i: "e = of_nat i" "1 \<le> i" "i \<le> unat n_max" "index_test T e"
      by auto
    have "i < 2 ^ 64" using i(3) unsigned_less [of n_max, where ?'a = nat] by simp
    hence "unat e = i" by (simp add: i(1) unat_of_nat)
    then show "e \<in> ?R" using i by (simp add: passing_def word_le_nat_alt)
  next
    fix e assume "e \<in> ?R"
    hence "e = of_nat (unat e)" "1 \<le> unat e" "unat e < Suc (unat n_max)" "index_test T e"
      by (simp_all add: passing_def word_le_nat_alt)
    then show "e \<in> ?L" by (metis (mono_tags, lifting) mem_Collect_eq)
  qed
  then show ?thesis by (simp only: spec_scan_def spec_scan_fold)
qed

lemma index_test_3_1: "index_test 3 1"
  by (simp add: index_test_def verify_square_def isqrt_defs filter_defs ETA_CEILING_def ULLONG_MAX_def)

lemma Min_passing_1:
  assumes "index_test T 1" and "1 \<le> n_max"
  shows "Min (insert ULLONG_MAX (passing T 1 n_max)) = 1"
proof (rule Min_eqI)
  show "1 \<in> insert ULLONG_MAX (passing T 1 n_max)" using assms by (simp add: passing_def)
  fix y assume "y \<in> insert ULLONG_MAX (passing T 1 n_max)"
  then show "1 \<le> y" by (auto simp: passing_def ULLONG_MAX_def)
qed simp

lemma search_eta_chunked_exact:
  assumes "unat n_max + 16776960 < 2 ^ 64"
  shows "search_eta_chunked None T n_max = Some ([Timing], Inr (spec_scan T n_max))"
  by (simp add: search_eta_chunked_def dispatch_loop_total [OF assms] spec_scan_Min)

section \<open>Concrete runs\<close>

lemma decimal_3: "decimal ''3'' = 3"
  by (simp add: decimal_def Let_def)
lemma decimal_10: "decimal ''10'' = 10"
  by (simp add: decimal_def Let_def)
lemma decimal_max: "decimal ''18446744073709551615'' = ULLONG_MAX"
  by (simp add: decimal_def Let_def ULLONG_MAX_def)
lemma decimal_0: "decimal ''0'' = 0"
  by (simp add: decimal_def Let_def)

lemma kernel_3_1: "eta_congruent_kernel 3 1 10 0 0 = Hit 1"
  by (simp add: kernel_defs filter_defs isqrt_defs)

lemma search_3_10: "search_eta_chunked None 3 10 = Some ([Timing], Inr 1)"
proof -
  have "unat (10::u64) + 16776960 < 2 ^ 64" by simp
  hence "search_eta_chunked None 3 10 = Some ([Timing], Inr (spec_scan 3 10))"
    by (rule search_eta_chunked_exact)
  moreover have "spec_scan 3 10 = 1"
    unfolding spec_scan_Min by (rule Min_passing_1) (simp_all add: index_test_3_1)
  ultimately show ?thesis by simp
qed

lemma one_le_word: "(1::u64) \<le> e \<longleftrightarrow> e \<noteq> 0"
  by (simp add: word_le_nat_alt unat_gt_0 Suc_le_eq)

lemma index_test_facts:
  "index_test T e \<Longrightarrow>
     1 \<le> e \<and> e \<le> ETA_CEILING \<and> verify_square (T + (2 * e - 1) * (2 * e - 1))"
  by (simp add: index_test_def Let_def one_le_word)

lemma ceiling_below_sentinel: "ETA_CEILING < ULLONG_MAX"
  by (simp add: ETA_CEILING_def ULLONG_MAX_def)

lemma main_search:
  assumes "length argv = 3" and "strtoull (argv ! 2) \<noteq> 0"
  shows "main strtoull flt argv =
    (case search_eta_chunked flt (strtoull (argv ! 1)) (strtoull (argv ! 2)) of
       None \<Rightarrow> None
     | Some (printed, Inl (CudaFatal site)) \<Rightarrow>
         Some \<lparr>exit_code = 1, err = [Fatal site],
               out = header (strtoull (argv ! 1)) (strtoull (argv ! 2)) @ printed\<rparr>
     | Some (printed, Inr result) \<Rightarrow>
         Some \<lparr>exit_code = 0, err = [],
               out = header (strtoull (argv ! 1)) (strtoull (argv ! 2)) @ printed @
                 [if result = ULLONG_MAX then NoEta (strtoull (argv ! 2))
                  else EtaFound result (4 * result - 2),
                  Meta (strtoull (argv ! 1)) (strtoull (argv ! 2))]\<rparr>)"
  using assms
  by (auto simp: main_def Let_def split: option.splits prod.splits sum.splits error.splits)

text \<open>
  C9. The scenario \<open>T = 3\<close>, \<open>n_max = 10\<close>: the worker of index 1 has \<open>d = 1\<close> and the
  candidate 4, whose root is computed as 2; it passes the nine moduli and the
  verification and writes 1; with no failing call of the runtime the search returns 1,
  and the command reports \<open>eta = 1\<close> with \<open>4 * eta - 2 = 2\<close> and exits with code 0.
\<close>

theorem scenario_T3_nmax10:
  "survive_loop 3 ((2 * 1 - 1) * (2 * 1 - 1)) Q
   \<and> isqrt_uint64 (3 + (2 * 1 - 1) * (2 * 1 - 1)) = 2
   \<and> eta_congruent_kernel 3 1 10 0 0 = Hit 1
   \<and> search_eta_chunked None 3 10 = Some ([Timing], Inr 1)
   \<and> main decimal None [''eta_congruent_gpu'', ''3'', ''10'']
       = Some \<lparr>exit_code = 0, err = [],
               out = [Banner 3 3 10, Gpu, Timing, EtaFound 1 2, Meta 3 10]\<rparr>"
proof -
  have a: "survive_loop 3 ((2 * 1 - 1) * (2 * 1 - 1)) Q"
    by (simp add: filter_defs)
  have b: "isqrt_uint64 (3 + (2 * 1 - 1) * (2 * 1 - 1)) = 2"
    by (simp add: isqrt_defs)
  have c: "main decimal None [''eta_congruent_gpu'', ''3'', ''10'']
       = Some \<lparr>exit_code = 0, err = [],
               out = [Banner 3 3 10, Gpu, Timing, EtaFound 1 2, Meta 3 10]\<rparr>"
    by (subst main_search)
      (simp_all add: decimal_3 decimal_10 search_3_10 header_def ULLONG_MAX_def)
  show ?thesis using a b c kernel_3_1 search_3_10 by simp
qed

text \<open>
  C10. The register. A worker writes only on a hit, and the index it writes is at least
  1, at most \<open>n_end\<close> and at most the ceiling, and has passed the filter and the
  verification; a write, a launch and the whole loop never increase the register; a
  register read back after the loop is the value the loop started from or an index
  between 1 and \<open>min n_max 1518500249\<close> that passes the test. The search starts the
  register at \<^verbatim>\<open>ULLONG_MAX\<close> (with \<open>n_max = 0\<close> no chunk runs and that value is read
  back), so its result is the sentinel or a passing index of at most 1518500249, which
  is below the sentinel.
\<close>

theorem register_invariant:
  "(eta_congruent_kernel T n_start n_end blk thr = Hit eta \<longrightarrow>
      1 \<le> eta \<and> eta \<le> n_end \<and> eta \<le> ETA_CEILING \<and> index_test T eta
      \<and> verify_square (T + (2 * eta - 1) * (2 * eta - 1)))
   \<and> atomicMin w reg \<le> reg
   \<and> kernel_launch sched T n_start n_end reg \<le> reg
   \<and> (dispatch_loop flt T n_max k n0 reg = Some (Inr r) \<longrightarrow>
        r \<le> reg \<and> (r = reg \<or> (1 \<le> r \<and> r \<le> n_max \<and> r \<le> ETA_CEILING \<and> index_test T r)))
   \<and> search_eta_chunked None T 0 = Some ([Timing], Inr ULLONG_MAX)
   \<and> (search_eta_chunked flt T n_max = Some (printed, Inr result) \<longrightarrow>
        result = ULLONG_MAX \<or>
        (1 \<le> result \<and> result \<le> n_max \<and> result \<le> ETA_CEILING \<and> index_test T result
         \<and> result \<noteq> ULLONG_MAX))
   \<and> ETA_CEILING < ULLONG_MAX"
proof -
  have a: "1 \<le> eta \<and> eta \<le> n_end \<and> eta \<le> ETA_CEILING \<and> index_test T eta
      \<and> verify_square (T + (2 * eta - 1) * (2 * eta - 1))"
    if "eta_congruent_kernel T n_start n_end blk thr = Hit eta"
    using that index_test_facts [of T eta] unfolding kernel_Hit_iff by blast
  have b: "atomicMin w reg \<le> reg" by (cases w) simp_all
  have c: "r \<le> reg \<and> (r = reg \<or> (1 \<le> r \<and> r \<le> n_max \<and> r \<le> ETA_CEILING \<and> index_test T r))"
    if "dispatch_loop flt T n_max k n0 reg = Some (Inr r)" for flt n_max k n0 reg r
    using dispatch_loop_partial [OF that] index_test_facts [of T r] by blast
  have d: "search_eta_chunked None T 0 = Some ([Timing], Inr ULLONG_MAX)"
    by (subst search_eta_chunked_def, subst dispatch_loop.simps) simp
  have e: "result = ULLONG_MAX \<or>
        (1 \<le> result \<and> result \<le> n_max \<and> result \<le> ETA_CEILING \<and> index_test T result
         \<and> result \<noteq> ULLONG_MAX)"
    if s: "search_eta_chunked flt T n_max = Some (printed, Inr result)"
  proof -
    from s have "dispatch_loop flt T n_max 0 1 ULLONG_MAX = Some (Inr result)"
      by (auto simp: search_eta_chunked_def split: if_splits option.splits sum.splits)
    from c [OF this] ceiling_below_sentinel show ?thesis by auto
  qed
  show ?thesis using a b c d e kernel_launch_le ceiling_below_sentinel by blast
qed

theorem register_invariant_witness:
  "eta_congruent_kernel 3 1 10 0 0 = Hit 1
   \<and> search_eta_chunked None 3 10 = Some ([Timing], Inr 1)
   \<and> dispatch_loop None 3 10 0 1 ULLONG_MAX = Some (Inr 1)
   \<and> (1::u64) \<le> 10 \<and> (1::u64) \<le> ETA_CEILING \<and> index_test 3 1 \<and> (1::u64) \<noteq> ULLONG_MAX"
proof -
  have l: "dispatch_loop None 3 10 0 1 ULLONG_MAX = Some (Inr 1)"
    using search_3_10
    by (auto simp: search_eta_chunked_def split: if_splits option.splits sum.splits)
  from register_invariant [where T = 3 and n_start = 1 and n_end = 10 and blk = 0 and thr = 0
      and eta = 1 and flt = None and n_max = 10 and k = 0 and ?n0.0 = 1 and reg = ULLONG_MAX
      and r = 1 and printed = "[Timing]" and result = 1]
    kernel_3_1 search_3_10 l
  show ?thesis by (simp add: ULLONG_MAX_def)
qed

section \<open>The largest bound\<close>

lemma dispatch_loop_ULLONG_MAX: "dispatch_loop None T ULLONG_MAX k 1 reg = None"
  by (rule dispatch_loop_diverges) (simp_all add: ULLONG_MAX_def unsigned_minus_1_eq_mask mask_eq_exp_minus_1)

text \<open>
  C4. The claim: for every \<open>T\<close> and every \<open>n_max\<close> from 1 up to the largest 64-bit
  value the dispatch loop ends after finitely many chunks. The code at
  \<open>n_max = 18446744073709551615\<close>: \<open>n0 \<le> n_max\<close> holds for every value of \<open>n0\<close>, the
  addition \<open>n0 += CHUNK_SIZE\<close> wraps, and the loop never ends, so neither the search
  nor the command returns. Lemma \<open>dispatch_loop_diverges\<close> has the same for every
  \<open>n_max\<close> from \<open>2 ^ 64 - 255\<close> on, and lemma \<open>dispatch_loop_total\<close> has the end of the
  loop for every \<open>n_max\<close> below \<open>2 ^ 64 - 16776960\<close>.
\<close>

theorem dispatch_loop_never_ends_at_ULLONG_MAX:
  "dispatch_loop None T ULLONG_MAX 0 1 ULLONG_MAX = None
   \<and> search_eta_chunked None T ULLONG_MAX = None
   \<and> main decimal None [''eta_congruent_gpu'', ''3'', ''18446744073709551615''] = None"
proof -
  have "main decimal None [''eta_congruent_gpu'', ''3'', ''18446744073709551615'']
      = None"
    by (subst main_search)
      (simp_all add: decimal_3 decimal_max search_eta_chunked_def dispatch_loop_ULLONG_MAX,
        simp add: ULLONG_MAX_def)
  then show ?thesis
    by (simp add: search_eta_chunked_def dispatch_loop_ULLONG_MAX)
qed

text \<open>
  C3. The claim: for every \<open>T\<close> and every \<open>n_max\<close> of at least 1 the register after the
  chunks holds what the exhaustive scan of 1 to \<open>n_max\<close> finds. At \<open>T = 3\<close> and
  \<open>n_max = 18446744073709551615\<close> the exhaustive scan finds 1, and the chunked search
  never returns a value. Everywhere else the two agree: the search returns the result
  of the scan for every \<open>n_max\<close> below \<open>2 ^ 64 - 16776960\<close> (lemma
  \<open>search_eta_chunked_exact\<close>), a value it returns is the result of the scan for every
  \<open>n_max\<close> (lemma \<open>search_eta_chunked_sound\<close> below), and so is the reduction over
  any valid partition (lemma \<open>spec_run_chunks_scan\<close> below), in any order of the workers
  (lemma \<open>kernel_launch_schedule\<close>).
\<close>

theorem search_misses_scan_at_ULLONG_MAX:
  "spec_scan 3 ULLONG_MAX = 1 \<and> search_eta_chunked None 3 ULLONG_MAX = None"
proof -
  have "spec_scan 3 ULLONG_MAX = 1"
    unfolding spec_scan_Min
    by (rule Min_passing_1) (simp_all add: index_test_3_1 ULLONG_MAX_def)
  then show ?thesis
    by (simp add: search_eta_chunked_def dispatch_loop_ULLONG_MAX)
qed

lemma dispatch_loop_fault_0:
  assumes "n_max \<noteq> 0"
  shows "dispatch_loop (Some (Launch 0)) T n_max 0 1 reg = Some (Inl (CudaFatal (Launch 0)))"
  using assms by (subst dispatch_loop.simps) (simp add: Let_def one_le_word)

section \<open>Soundness of the search for every bound\<close>

lemma dispatch_loop_lower:
  assumes "dispatch_loop flt T n_max k n0 reg = Some (Inr r)"
  shows "\<forall>e\<in>passing T n0 n_max. r \<le> e"
  using assms
proof (induction "1518500250 - unat n0" arbitrary: k n0 reg rule: less_induct)
  case less
  show ?case
  proof (cases "n0 \<le> n_max \<and> n0 \<le> ETA_CEILING")
    case False
    hence "passing T n0 n_max = {}"
      by (auto simp: passing_def index_test_def)
    then show ?thesis by simp
  next
    case True
    define n1 where "n1 = chunk_end n_max n0"
    define reg' where "reg' = kernel_launch (launch_threads (chunk_grid n0 n1)) T n0 n1 reg"
    have u: "unat n0 \<le> unat n_max" "unat n0 \<le> 1518500249"
      using True by (simp_all add: word_le_nat_alt ETA_CEILING_def)
    hence fit: "unat n0 + 16776960 < 2 ^ 64" by simp
    note ce = chunk_next_near [OF fit] chunk_end_near [OF fit, of n_max, folded n1_def]
    have "n0 \<le> n1" "unat n1 - unat n0 < 16776960" "unat n0 + 16776960 \<le> 2 ^ 64"
      using ce u by (simp_all add: word_le_nat_alt)
    hence r': "reg' = Min (insert reg (passing T n0 n1))"
      unfolding reg'_def by (rule kernel_launch_regular)
    have nofault: "flt \<noteq> Some (Launch k)"
    proof
      assume "flt = Some (Launch k)"
      hence "dispatch_loop flt T n_max k n0 reg = Some (Inl (CudaFatal (Launch k)))"
        using True by (subst dispatch_loop.simps) (simp add: Let_def)
      with less.prems show False by simp
    qed
    have "dispatch_loop flt T n_max k n0 reg =
        dispatch_loop flt T n_max (Suc k) (n0 + CHUNK_SIZE) reg'"
      using True nofault by (subst dispatch_loop.simps) (simp add: Let_def n1_def reg'_def)
    hence next_run: "dispatch_loop flt T n_max (Suc k) (n0 + CHUNK_SIZE) reg' = Some (Inr r)"
      using less.prems by simp
    have "1518500250 - unat (n0 + CHUNK_SIZE) < 1518500250 - unat n0"
      using ce(1) u by simp
    hence far: "\<forall>e\<in>passing T (n0 + CHUNK_SIZE) n_max. r \<le> e"
      using next_run by (rule less.hyps)
    have "r \<le> reg'"
      using dispatch_loop_partial [OF next_run] by simp
    moreover have "\<forall>e\<in>passing T n0 n1. reg' \<le> e"
      unfolding r' by simp
    ultimately have near: "\<forall>e\<in>passing T n0 n1. r \<le> e"
      by (meson order_trans)
    have "passing T n0 n_max = passing T n0 n1 \<union> passing T (n0 + CHUNK_SIZE) n_max"
      unfolding n1_def by (rule passing_split_near [OF fit, symmetric])
    then show ?thesis using near far by blast
  qed
qed

lemma search_eta_chunked_sound:
  assumes "search_eta_chunked flt T n_max = Some (printed, Inr r)"
  shows "r = spec_scan T n_max"
proof -
  from assms have run: "dispatch_loop flt T n_max 0 1 ULLONG_MAX = Some (Inr r)"
    by (auto simp: search_eta_chunked_def split: if_splits option.splits sum.splits)
  have lower: "\<forall>e\<in>passing T 1 n_max. r \<le> e"
    using run by (rule dispatch_loop_lower)
  have "r = ULLONG_MAX \<or> (r \<le> n_max \<and> index_test T r)"
    using dispatch_loop_partial [OF run] by simp
  hence mem: "r \<in> insert ULLONG_MAX (passing T 1 n_max)"
    using index_test_facts [of T r] by (auto simp: passing_def)
  have "Min (insert ULLONG_MAX (passing T 1 n_max)) = r"
  proof (rule Min_eqI)
    fix y assume "y \<in> insert ULLONG_MAX (passing T 1 n_max)"
    then show "r \<le> y" using lower by (auto simp: ULLONG_MAX_def)
  qed (use mem in simp_all)
  then show ?thesis by (simp add: spec_scan_Min)
qed

section \<open>Any valid partition\<close>

lemma launch_covers:
  assumes le: "n0 \<le> n1" and size: "unat n1 - unat n0 < 16776960"
  shows "passing T n0 n1 \<subseteq> {e. \<exists>(blk, thr)\<in>set (launch_threads (chunk_grid n0 n1)).
            eta_congruent_kernel T n0 n1 blk thr = Hit e}" (is "_ \<subseteq> ?H")
proof
  fix e assume "e \<in> passing T n0 n1"
  hence e: "n0 \<le> e" "e \<le> n1" "index_test T e" by (simp_all add: passing_def)
  define i where "i = unat (e - n0)"
  have g: "unat (chunk_grid n0 n1) = (unat n1 - unat n0) div 256 + 1"
    using le size by (rule chunk_grid_regular)
  have "i = unat e - unat n0" using e(1) by (simp add: i_def unat_sub)
  hence i: "i \<le> unat n1 - unat n0"
    using e(2) by (simp add: word_le_nat_alt)
  have "n0 + of_nat i = e" by (simp add: i_def)
  moreover have "i = (i div 256) * 256 + i mod 256" by simp
  ultimately have "thread_eta n0 (i div 256) (i mod 256) = e"
    by (simp only: thread_eta_offset)
  hence "eta_congruent_kernel T n0 n1 (i div 256) (i mod 256) = Hit e"
    using e by (simp add: kernel_Hit_iff)
  moreover have "i div 256 < (unat n1 - unat n0) div 256 + 1"
    using i by (simp add: div_le_mono less_Suc_eq_le)
  ultimately show "e \<in> ?H"
    by (auto simp: in_launch_threads g intro!: bexI [of _ "(i div 256, i mod 256)"])
qed

lemma spec_run_chunks_Min:
  assumes "spec_valid_partition lo hi cs"
  shows "\<exists>H. passing T lo hi \<subseteq> H \<and> H \<subseteq> {e. e \<le> hi \<and> index_test T e}
           \<and> (\<forall>reg. spec_run_chunks T cs reg = Min (insert reg H))"
  using assms
proof (induction cs arbitrary: lo)
  case Nil
  then show ?case by simp
next
  case (Cons c cs)
  obtain a b where c: "c = (a, b)" by (cases c)
  define H1 where "H1 = {e. \<exists>(blk, thr)\<in>set (launch_threads (chunk_grid a b)).
            eta_congruent_kernel T a b blk thr = Hit e}"
  from Cons.prems have v: "a = lo" "a \<le> b" "b \<le> hi" "unat b - unat a < 16776960"
    and rest: "if b = hi then cs = [] else spec_valid_partition (b + 1) hi cs"
    by (auto simp: c unat_CHUNK_SIZE)
  have cover: "passing T a b \<subseteq> H1"
    unfolding H1_def using v(2,4) by (rule launch_covers)
  have sound: "H1 \<subseteq> {e. e \<le> hi \<and> index_test T e}"
    using v(3) by (auto simp: H1_def kernel_Hit_iff intro: order_trans)
  have step: "spec_run_chunks T (c # cs) reg = spec_run_chunks T cs (Min (insert reg H1))"
    for reg
    by (simp add: c kernel_launch_Min H1_def)
  show ?case
  proof (cases "b = hi")
    case True
    hence "cs = []" using rest by simp
    then show ?thesis
      using cover sound True v(1) step by (intro exI [of _ H1]) simp
  next
    case False
    hence "spec_valid_partition (b + 1) hi cs" using rest by simp
    from Cons.IH [OF this] obtain H2 where H2: "passing T (b + 1) hi \<subseteq> H2"
      "H2 \<subseteq> {e. e \<le> hi \<and> index_test T e}"
      "\<And>reg. spec_run_chunks T cs reg = Min (insert reg H2)"
      by blast
    have "unat b < unat hi" using v(3) False by (simp add: word_le_nat_alt word_unat_eq_iff)
    hence b1: "unat (b + 1) = unat b + 1"
      using unsigned_less [of hi, where ?'a = nat]
      by (subst unat_add_lem[THEN iffD1]) simp_all
    have "passing T lo hi \<subseteq> passing T a b \<union> passing T (b + 1) hi"
      using b1 by (auto simp: passing_def v(1) word_le_nat_alt)
    hence "passing T lo hi \<subseteq> H1 \<union> H2" using cover H2(1) by blast
    moreover have "H1 \<union> H2 \<subseteq> {e. e \<le> hi \<and> index_test T e}"
      using sound H2(2) by blast
    moreover have "spec_run_chunks T (c # cs) reg = Min (insert reg (H1 \<union> H2))" for reg
      by (simp add: step H2(3) Min_insert_Min)
    ultimately show ?thesis by (intro exI [of _ "H1 \<union> H2"]) simp
  qed
qed

lemma spec_run_chunks_scan:
  assumes "spec_valid_partition 1 n_max cs"
  shows "spec_run_chunks T cs ULLONG_MAX = spec_scan T n_max"
proof -
  from spec_run_chunks_Min [OF assms, of T] obtain H where H: "passing T 1 n_max \<subseteq> H"
    "H \<subseteq> {e. e \<le> n_max \<and> index_test T e}"
    "\<And>reg. spec_run_chunks T cs reg = Min (insert reg H)"
    by blast
  have "{e. e \<le> n_max \<and> index_test T e} \<subseteq> passing T 1 n_max"
    using index_test_facts [of T] by (auto simp: passing_def)
  hence "H = passing T 1 n_max" using H(1,2) by blast
  then show ?thesis by (simp add: H(3) spec_scan_Min)
qed

lemma single_chunk_valid:
  assumes "1 \<le> n_max" and "unat n_max \<le> 16776960"
  shows "spec_valid_partition 1 n_max [(1, n_max)]"
  using assms by (simp add: unat_CHUNK_SIZE word_le_nat_alt)

lemma ex_less_numeral:
  "(\<exists>x<numeral k. P x) \<longleftrightarrow> P (pred_numeral k) \<or> (\<exists>x<pred_numeral k. P x)"
  by (simp add: numeral_eq_Suc less_Suc_eq) blast

section \<open>The tables\<close>

lemma table_exact_3: "\<forall>v<3. is_qr_mod (of_nat v) 3 = (\<exists>x<3. x * x mod 3 = v)"
  by (simp add: all_less_numeral ex_less_numeral is_qr_mod_def)

lemma table_exact_5: "\<forall>v<5. is_qr_mod (of_nat v) 5 = (\<exists>x<5. x * x mod 5 = v)"
  by (simp add: all_less_numeral ex_less_numeral is_qr_mod_def)

lemma table_exact_7: "\<forall>v<7. is_qr_mod (of_nat v) 7 = (\<exists>x<7. x * x mod 7 = v)"
  by (simp add: all_less_numeral ex_less_numeral is_qr_mod_def)

lemma table_exact_11: "\<forall>v<11. is_qr_mod (of_nat v) 11 = (\<exists>x<11. x * x mod 11 = v)"
  by (simp add: all_less_numeral ex_less_numeral is_qr_mod_def)

lemma table_exact_13: "\<forall>v<13. is_qr_mod (of_nat v) 13 = (\<exists>x<13. x * x mod 13 = v)"
  by (simp add: all_less_numeral ex_less_numeral is_qr_mod_def)

lemma table_exact_17: "\<forall>v<17. is_qr_mod (of_nat v) 17 = (\<exists>x<17. x * x mod 17 = v)"
  by (simp add: all_less_numeral ex_less_numeral is_qr_mod_def)

lemma table_exact_19: "\<forall>v<19. is_qr_mod (of_nat v) 19 = (\<exists>x<19. x * x mod 19 = v)"
  by (simp add: all_less_numeral ex_less_numeral is_qr_mod_def)

lemma table_exact_29: "\<forall>v<29. is_qr_mod (of_nat v) 29 = (\<exists>x<29. x * x mod 29 = v)"
  by (simp add: all_less_numeral ex_less_numeral is_qr_mod_def r29_def)

lemma table_exact_23:
  "\<forall>v<23. v \<noteq> 22 \<longrightarrow> is_qr_mod (of_nat v) 23 = (\<exists>x<23. x * x mod 23 = v)"
  by (simp add: all_less_numeral ex_less_numeral is_qr_mod_def r23_def)

text \<open>Apart from the entry 22 of the table of 23, the tables are the sets of squares.\<close>

lemma tables_exact:
  assumes "q \<in> set Q" and "v < nat q" and "(q, v) \<noteq> (23, 22)"
  shows "is_qr_mod (of_nat v) q = (\<exists>x<nat q. x * x mod nat q = v)"
  using Q_cases [OF assms(1)] assms(2,3)
    table_exact_3 table_exact_5 table_exact_7 table_exact_11 table_exact_13
    table_exact_17 table_exact_19 table_exact_23 table_exact_29
  by (elim disjE) simp_all

section \<open>The grid of every launch\<close>

lemma chunk_grid_range:
  assumes le: "n0 \<le> n_max"
  shows "1 \<le> unat (chunk_grid n0 (chunk_end n_max n0))
       \<and> unat (chunk_grid n0 (chunk_end n_max n0)) \<le> 65535"
proof (cases "n0 + CHUNK_SIZE - 1 < n_max")
  case True
  have "n0 + CHUNK_SIZE - 1 - n0 + 1 + of_nat BLOCK_SIZE - 1 = (16777215 :: u64)"
    by (simp add: CHUNK_SIZE_def BLOCK_SIZE_def MAX_GRID_DIM_def)
  hence "chunk_grid n0 (n0 + CHUNK_SIZE - 1) = 65535"
    by (simp only: chunk_grid_def) (simp add: BLOCK_SIZE_def)
  then show ?thesis using True by (simp add: chunk_end_def)
next
  case False
  have u: "unat n0 \<le> unat n_max" using le by (simp add: word_le_nat_alt)
  have m: "unat n_max - unat n0 < 16776960"
  proof (cases "unat n0 + 16776960 < 2 ^ 64")
    case True
    have "unat (n0 + CHUNK_SIZE - 1) = unat n0 + 16776959"
      by (subst unat_sub) (simp_all add: word_le_nat_alt chunk_next_near [OF True])
    then show ?thesis using False by (simp add: word_less_nat_alt)
  next
    case False
    moreover have "unat n_max < 2 ^ 64" using unsigned_less [of n_max, where ?'a = nat] by simp
    ultimately show ?thesis by simp
  qed
  have "unat (chunk_grid n0 n_max) = (unat n_max - unat n0) div 256 + 1"
    using le m by (rule chunk_grid_regular)
  moreover have "(unat n_max - unat n0) div 256 < 65535"
    using m by (simp add: less_mult_imp_div_less)
  ultimately show ?thesis using False by (simp add: chunk_end_def)
qed

section \<open>The exit codes of the command\<close>

lemma aligned_fit:
  assumes al: "unat n0 = 1 + k * 16776960" and le: "n0 \<le> n_max"
    and bound: "unat n_max < 2 ^ 64 - 65535"
  shows "unat n0 + 16776960 < 2 ^ 64"
proof -
  have "unat n0 \<le> unat n_max" using le by (simp add: word_le_nat_alt)
  hence "1 + k * 16776960 < 18446744073709486081" using al bound by simp
  hence "k < 1099528405248" by linarith
  hence "1 + k * 16776960 + 16776960 \<le> 18446744073709486081" by linarith
  then show ?thesis using al by simp
qed

lemma dispatch_loop_aligned_ok:
  assumes bound: "unat n_max < 2 ^ 64 - 65535"
    and al: "unat n0 = 1 + k * 16776960"
    and nof: "\<forall>j. flt = Some (Launch j) \<longrightarrow> j < k \<or> unat n_max < 1 + j * 16776960"
  shows "dispatch_loop flt T n_max k n0 reg = Some (Inr (Min (insert reg (passing T n0 n_max))))"
  using al nof
proof (induction "unat n_max + 1 - unat n0" arbitrary: k n0 reg rule: less_induct)
  case less
  show ?case
  proof (cases "n0 \<le> n_max")
    case False
    hence "passing T n0 n_max = {}" by (auto simp: passing_def)
    then show ?thesis using False by (subst dispatch_loop.simps) simp
  next
    case True
    define n1 where "n1 = chunk_end n_max n0"
    define reg' where "reg' = kernel_launch (launch_threads (chunk_grid n0 n1)) T n0 n1 reg"
    have u: "unat n0 \<le> unat n_max" using True by (simp add: word_le_nat_alt)
    have fit: "unat n0 + 16776960 < 2 ^ 64"
      using less.prems(1) True bound by (rule aligned_fit)
    have nxt: "unat (n0 + CHUNK_SIZE) = unat n0 + 16776960"
      using fit by (rule chunk_next_near)
    have ce: "unat n1 = min (unat n0 + 16776959) (unat n_max)"
      unfolding n1_def using fit by (rule chunk_end_near)
    have "n0 \<le> n1" "unat n1 - unat n0 < 16776960" "unat n0 + 16776960 \<le> 2 ^ 64"
      using ce u fit by (simp_all add: word_le_nat_alt)
    hence r: "reg' = Min (insert reg (passing T n0 n1))"
      unfolding reg'_def by (rule kernel_launch_regular)
    have nofault: "flt \<noteq> Some (Launch k)"
      using less.prems(2) less.prems(1) u by auto
    have al': "unat (n0 + CHUNK_SIZE) = 1 + Suc k * 16776960"
      using nxt less.prems(1) by simp
    have nof': "\<forall>j. flt = Some (Launch j) \<longrightarrow> j < Suc k \<or> unat n_max < 1 + j * 16776960"
      using less.prems(2) by auto
    have "unat n_max + 1 - unat (n0 + CHUNK_SIZE) < unat n_max + 1 - unat n0"
      using nxt u by simp
    hence "dispatch_loop flt T n_max (Suc k) (n0 + CHUNK_SIZE) reg' =
        Some (Inr (Min (insert reg' (passing T (n0 + CHUNK_SIZE) n_max))))"
      using al' nof' by (rule less.hyps)
    also have "Min (insert reg' (passing T (n0 + CHUNK_SIZE) n_max)) =
        Min (insert reg (passing T n0 n_max))"
      unfolding r n1_def by (simp add: Min_insert_Min passing_split_near [OF fit])
    finally show ?thesis
      using True nofault by (subst dispatch_loop.simps) (simp add: Let_def n1_def reg'_def)
  qed
qed

lemma dispatch_loop_aligned_fault:
  assumes bound: "unat n_max < 2 ^ 64 - 65535"
    and al: "unat n0 = 1 + k * 16776960"
    and flt: "flt = Some (Launch j)" and kj: "k \<le> j"
    and made: "1 + j * 16776960 \<le> unat n_max"
  shows "dispatch_loop flt T n_max k n0 reg = Some (Inl (CudaFatal (Launch j)))"
  using al kj
proof (induction "j - k" arbitrary: k n0 reg rule: less_induct)
  case less
  have "k * 16776960 \<le> j * 16776960" using less.prems(2) by simp
  hence u: "unat n0 \<le> unat n_max" using less.prems(1) made by simp
  hence le: "n0 \<le> n_max" by (simp add: word_le_nat_alt)
  show ?case
  proof (cases "k = j")
    case True
    then show ?thesis
      using le flt by (subst dispatch_loop.simps) (simp add: Let_def)
  next
    case False
    hence lt: "k < j" using less.prems(2) by simp
    have fit: "unat n0 + 16776960 < 2 ^ 64"
      using less.prems(1) le bound by (rule aligned_fit)
    have al': "unat (n0 + CHUNK_SIZE) = 1 + Suc k * 16776960"
      using chunk_next_near [OF fit] less.prems(1) by simp
    have "j - Suc k < j - k" using lt by simp
    hence ih: "dispatch_loop flt T n_max (Suc k) (n0 + CHUNK_SIZE) reg' =
        Some (Inl (CudaFatal (Launch j)))" for reg'
      using al' lt by (intro less.hyps) simp_all
    have "flt \<noteq> Some (Launch k)" using False flt by simp
    hence "dispatch_loop flt T n_max k n0 reg =
        dispatch_loop flt T n_max (Suc k) (n0 + CHUNK_SIZE)
          (kernel_launch (launch_threads (chunk_grid n0 (chunk_end n_max n0))) T n0
            (chunk_end n_max n0) reg)"
      using le by (subst dispatch_loop.simps) (simp add: Let_def)
    then show ?thesis by (simp only: ih)
  qed
qed

lemma dispatch_loop_Inl:
  assumes "dispatch_loop flt T n_max k n0 reg = Some y"
  shows "\<forall>e. y = Inl e \<longrightarrow> (\<exists>j. flt = Some (Launch j) \<and> e = CudaFatal (Launch j))"
proof (rule dispatch_loop.raw_induct [where P = "\<lambda>flt T n_max k n0 reg y.
    \<forall>e. y = Inl e \<longrightarrow> (\<exists>j. flt = Some (Launch j) \<and> e = CudaFatal (Launch j))", OF _ assms],
    goal_cases)
  case (1 loop flt T n_max k n0 reg y)
  show ?case
  proof (cases "n0 \<le> n_max")
    case False
    hence "y = Inr reg" using 1(2) by simp
    then show ?thesis by simp
  next
    case True
    show ?thesis
    proof (cases "flt = Some (Launch k)")
      case f: True
      hence "y = Inl (CudaFatal (Launch k))" using 1(2) True by (simp add: Let_def)
      then show ?thesis using f by simp
    next
      case f: False
      then obtain reg' where "loop flt T n_max (Suc k) (n0 + CHUNK_SIZE) reg' = Some y"
        using 1(2) True by (simp add: Let_def)
      from 1(1) [OF this] show ?thesis .
    qed
  qed
qed

lemma search_eta_chunked_Inl:
  assumes "search_eta_chunked flt T n_max = Some (printed, Inl e)"
  shows "\<exists>site. flt = Some site \<and> e = CudaFatal site"
proof (cases "flt = Some Setup")
  case True
  then show ?thesis using assms by (simp add: search_eta_chunked_def)
next
  case False
  show ?thesis
  proof (cases "dispatch_loop flt T n_max 0 1 ULLONG_MAX")
    case None
    then show ?thesis using assms False by (simp add: search_eta_chunked_def)
  next
    case (Some y)
    show ?thesis
    proof (cases y)
      case (Inl e')
      hence "e = e'" using assms False Some by (simp add: search_eta_chunked_def)
      then show ?thesis using dispatch_loop_Inl [OF Some] Inl by auto
    next
      case (Inr r)
      then show ?thesis
        using assms False Some by (auto simp: search_eta_chunked_def split: if_splits)
    qed
  qed
qed

lemma search_eta_chunked_Inr:
  assumes "search_eta_chunked flt T n_max = Some (printed, Inr r)"
  shows "printed = [Timing]"
  using assms
  by (auto simp: search_eta_chunked_def split: if_splits option.splits sum.splits)

lemma main_of_search:
  assumes "length argv = 3" and "strtoull (argv ! 2) \<noteq> 0"
  shows "search_eta_chunked flt (strtoull (argv ! 1)) (strtoull (argv ! 2))
           = Some ([Timing], Inr (spec_scan (strtoull (argv ! 1)) (strtoull (argv ! 2))))
         \<Longrightarrow> main strtoull flt argv
           = Some (completed_run (strtoull (argv ! 1)) (strtoull (argv ! 2)))"
    and "search_eta_chunked flt (strtoull (argv ! 1)) (strtoull (argv ! 2))
           = Some (printed, Inl (CudaFatal site))
         \<Longrightarrow> main strtoull flt argv
           = Some (fatal_run site (header (strtoull (argv ! 1)) (strtoull (argv ! 2)) @ printed))"
  using assms
  by (simp_all add: main_search [where strtoull = strtoull and argv = argv]
      completed_run_def fatal_run_def)

lemma main_partial:
  assumes len: "length argv = 3" and nz: "strtoull (argv ! 2) \<noteq> 0"
    and ret: "main strtoull flt argv = Some r"
  shows "r = completed_run (strtoull (argv ! 1)) (strtoull (argv ! 2))
       \<or> (\<exists>site printed. flt = Some site \<and> r = fatal_run site printed)"
proof -
  let ?T = "strtoull (argv ! 1)" and ?n = "strtoull (argv ! 2)"
  note m = main_search [where strtoull = strtoull and argv = argv and flt = flt, OF len nz]
  show ?thesis
  proof (cases "search_eta_chunked flt ?T ?n")
    case None
    then show ?thesis using ret by (simp add: m)
  next
    case (Some p)
    obtain printed y where p: "p = (printed, y)" by (cases p)
    show ?thesis
    proof (cases y)
      case (Inl e)
      from search_eta_chunked_Inl [OF Some [unfolded p Inl]]
      obtain site where s: "flt = Some site" "e = CudaFatal site" by blast
      have "search_eta_chunked flt ?T ?n = Some (printed, Inl (CudaFatal site))"
        using Some p Inl s by simp
      from main_of_search(2) [OF len nz this] ret s show ?thesis by auto
    next
      case (Inr res)
      have s: "search_eta_chunked flt ?T ?n = Some (printed, Inr res)"
        using Some p Inr by simp
      have "printed = [Timing]" "res = spec_scan ?T ?n"
        using search_eta_chunked_Inr [OF s] search_eta_chunked_sound [OF s] by simp_all
      hence "search_eta_chunked flt ?T ?n = Some ([Timing], Inr (spec_scan ?T ?n))"
        using s by simp
      from main_of_search(1) [OF len nz this] ret show ?thesis by simp
    qed
  qed
qed

lemma unat_one_aligned: "unat (1::u64) = 1 + 0 * 16776960"
  by simp

lemma search_no_fault_reached:
  assumes bound: "unat n_max < 2 ^ 64 - 65535"
    and nof: "flt = None \<or> (\<exists>j. flt = Some (Launch j) \<and> unat n_max < 1 + j * 16776960)"
  shows "search_eta_chunked flt T n_max = Some ([Timing], Inr (spec_scan T n_max))"
proof -
  have "\<forall>j. flt = Some (Launch j) \<longrightarrow> j < 0 \<or> unat n_max < 1 + j * 16776960"
    using nof by auto
  from dispatch_loop_aligned_ok [OF bound unat_one_aligned this]
  have "dispatch_loop flt T n_max 0 1 ULLONG_MAX = Some (Inr (spec_scan T n_max))"
    by (simp add: spec_scan_Min)
  moreover have "flt \<noteq> Some Setup" "flt \<noteq> Some Collect" "flt \<noteq> Some Release"
    using nof by auto
  ultimately show ?thesis by (simp add: search_eta_chunked_def)
qed

lemma search_launch_fault:
  assumes bound: "unat n_max < 2 ^ 64 - 65535" and made: "1 + j * 16776960 \<le> unat n_max"
  shows "search_eta_chunked (Some (Launch j)) T n_max = Some ([], Inl (CudaFatal (Launch j)))"
proof -
  have "dispatch_loop (Some (Launch j)) T n_max 0 1 ULLONG_MAX
      = Some (Inl (CudaFatal (Launch j)))"
    using bound unat_one_aligned refl _ made by (rule dispatch_loop_aligned_fault) simp
  then show ?thesis by (simp add: search_eta_chunked_def)
qed

lemma search_late_fault:
  assumes bound: "unat n_max < 2 ^ 64 - 65535"
  shows "search_eta_chunked (Some Collect) T n_max = Some ([], Inl (CudaFatal Collect))"
    and "search_eta_chunked (Some Release) T n_max = Some ([Timing], Inl (CudaFatal Release))"
proof -
  have "dispatch_loop (Some site) T n_max 0 1 ULLONG_MAX = Some (Inr (spec_scan T n_max))"
    if "site = Collect \<or> site = Release" for site
    using dispatch_loop_aligned_ok [OF bound unat_one_aligned, of "Some site" T ULLONG_MAX] that
    by (auto simp: spec_scan_Min)
  then show "search_eta_chunked (Some Collect) T n_max = Some ([], Inl (CudaFatal Collect))"
    and "search_eta_chunked (Some Release) T n_max = Some ([Timing], Inl (CudaFatal Release))"
    by (simp_all add: search_eta_chunked_def)
qed

lemma spec_scan_3_10: "spec_scan 3 10 = 1"
  unfolding spec_scan_Min by (rule Min_passing_1) (simp_all add: index_test_3_1)

lemma spec_scan_4_1: "spec_scan 4 1 = ULLONG_MAX"
proof -
  have "\<not> index_test 4 1"
    by (simp add: index_test_def filter_defs ETA_CEILING_def ULLONG_MAX_def)
  hence "passing 4 1 1 = {}"
    by (auto simp: passing_def dest: order_antisym)
  then show ?thesis by (simp add: spec_scan_Min)
qed

lemma decimal_4: "decimal ''4'' = 4"
  by (simp add: decimal_def Let_def)
lemma decimal_1: "decimal ''1'' = 1"
  by (simp add: decimal_def Let_def)
lemma decimal_two_chunks: "decimal ''16776961'' = 16776961"
  by (simp add: decimal_def Let_def)

text \<open>
  C8, as the code has it. The command exits with code 1 and one line on the error
  stream, nothing on the standard output and no search, when the argument count is not
  two (the usage line) or the parsed \<open>n_max\<close> is 0 (the line on \<open>n_max\<close>). In every
  other case a command that exits does so as a completed run, with code 0 and the line
  of the index found or the line that none was found, or as a fatal run of a site whose
  call failed, with code 1; a failure of the first call or of the check after the first
  launch always ends it with code 1. For every \<open>n_max\<close> below \<open>2 ^ 64 - 65535\<close>, up to
  which the loop variable cannot wrap, the command always exits: as a completed run
  when no call fails, which includes a failure set for the check after a launch
  \<open>j\<close> that the loop never makes (\<open>n_max < 1 + j * 16776960\<close>); as a fatal run with
  code 1 when the check after a launch that is made fails, or a call after the loop.
\<close>

theorem main_exit_codes:
  "(length argv \<noteq> 3 \<longrightarrow>
      main strtoull flt argv = Some \<lparr>exit_code = 1, err = [Usage], out = []\<rparr>)
   \<and> (length argv = 3 \<and> strtoull (argv ! 2) = 0 \<longrightarrow>
      main strtoull flt argv = Some \<lparr>exit_code = 1, err = [NMaxZero], out = []\<rparr>)
   \<and> exit_code (completed_run T n_max) = 0
   \<and> exit_code (fatal_run site printed) = 1 \<and> err (fatal_run site printed) = [Fatal site]
   \<and> (length argv = 3 \<and> strtoull (argv ! 2) \<noteq> 0 \<longrightarrow>
      (\<forall>r. main strtoull flt argv = Some r \<longrightarrow>
         r = completed_run (strtoull (argv ! 1)) (strtoull (argv ! 2))
         \<or> (\<exists>site printed. flt = Some site \<and> r = fatal_run site printed))
      \<and> main strtoull (Some Setup) argv =
          Some (fatal_run Setup (header (strtoull (argv ! 1)) (strtoull (argv ! 2))))
      \<and> main strtoull (Some (Launch 0)) argv =
          Some (fatal_run (Launch 0) (header (strtoull (argv ! 1)) (strtoull (argv ! 2)))))
   \<and> (length argv = 3 \<and> strtoull (argv ! 2) \<noteq> 0
        \<and> unat (strtoull (argv ! 2)) < 2 ^ 64 - 65535 \<longrightarrow>
      main strtoull None argv =
          Some (completed_run (strtoull (argv ! 1)) (strtoull (argv ! 2)))
      \<and> (\<forall>j. unat (strtoull (argv ! 2)) < 1 + j * 16776960 \<longrightarrow>
            main strtoull (Some (Launch j)) argv =
              Some (completed_run (strtoull (argv ! 1)) (strtoull (argv ! 2))))
      \<and> (\<forall>j. 1 + j * 16776960 \<le> unat (strtoull (argv ! 2)) \<longrightarrow>
            main strtoull (Some (Launch j)) argv =
              Some (fatal_run (Launch j) (header (strtoull (argv ! 1)) (strtoull (argv ! 2)))))
      \<and> main strtoull (Some Collect) argv =
          Some (fatal_run Collect (header (strtoull (argv ! 1)) (strtoull (argv ! 2))))
      \<and> main strtoull (Some Release) argv =
          Some (fatal_run Release
            (header (strtoull (argv ! 1)) (strtoull (argv ! 2)) @ [Timing])))"
proof -
  let ?T = "strtoull (argv ! 1)" and ?n = "strtoull (argv ! 2)"
  have a: "main strtoull flt argv = Some \<lparr>exit_code = 1, err = [Usage], out = []\<rparr>"
    if "length argv \<noteq> 3"
    using that by (simp add: main_def)
  have b: "main strtoull flt argv = Some \<lparr>exit_code = 1, err = [NMaxZero], out = []\<rparr>"
    if "length argv = 3" "?n = 0"
    using that by (simp add: main_def)
  have c: "exit_code (completed_run T n_max) = 0" "exit_code (fatal_run site printed) = 1"
    "err (fatal_run site printed) = [Fatal site]"
    by (simp_all add: completed_run_def fatal_run_def)
  have d: "\<forall>r. main strtoull flt argv = Some r \<longrightarrow>
         r = completed_run ?T ?n \<or> (\<exists>site printed. flt = Some site \<and> r = fatal_run site printed)"
    if "length argv = 3" "?n \<noteq> 0"
    using main_partial [where strtoull = strtoull and argv = argv, OF that] by blast
  have e: "main strtoull (Some Setup) argv = Some (fatal_run Setup (header ?T ?n))"
    if h: "length argv = 3" "?n \<noteq> 0"
    using main_of_search(2) [where strtoull = strtoull and argv = argv and flt = "Some Setup" and printed = "[]" and site = Setup, OF h]
    by (simp add: search_eta_chunked_def)
  have f: "main strtoull (Some (Launch 0)) argv = Some (fatal_run (Launch 0) (header ?T ?n))"
    if h: "length argv = 3" "?n \<noteq> 0"
    using main_of_search(2) [where strtoull = strtoull and argv = argv and flt = "Some (Launch 0)" and printed = "[]" and site = "Launch 0", OF h]
    by (simp add: search_eta_chunked_def dispatch_loop_fault_0 [OF h(2)])
  have g: "main strtoull None argv = Some (completed_run ?T ?n)"
    if h: "length argv = 3" "?n \<noteq> 0" and bound: "unat ?n < 2 ^ 64 - 65535"
    by (rule main_of_search(1) [where strtoull = strtoull and argv = argv, OF h]) (rule search_no_fault_reached [OF bound], simp)
  have i: "main strtoull (Some (Launch j)) argv = Some (completed_run ?T ?n)"
    if h: "length argv = 3" "?n \<noteq> 0" and bound: "unat ?n < 2 ^ 64 - 65535"
      and late: "unat ?n < 1 + j * 16776960" for j
    by (rule main_of_search(1) [where strtoull = strtoull and argv = argv, OF h]) (rule search_no_fault_reached [OF bound], use late in simp)
  have k: "main strtoull (Some (Launch j)) argv = Some (fatal_run (Launch j) (header ?T ?n))"
    if h: "length argv = 3" "?n \<noteq> 0" and bound: "unat ?n < 2 ^ 64 - 65535"
      and made: "1 + j * 16776960 \<le> unat ?n" for j
    using main_of_search(2) [where strtoull = strtoull and argv = argv and flt = "Some (Launch j)" and printed = "[]" and site = "Launch j", OF h]
      search_launch_fault [OF bound made, of ?T]
    by simp
  have l: "main strtoull (Some Collect) argv = Some (fatal_run Collect (header ?T ?n))"
    if h: "length argv = 3" "?n \<noteq> 0" and bound: "unat ?n < 2 ^ 64 - 65535"
    using main_of_search(2) [where strtoull = strtoull and argv = argv and flt = "Some Collect" and printed = "[]" and site = Collect, OF h]
      search_late_fault(1) [OF bound, of ?T]
    by simp
  have m: "main strtoull (Some Release) argv
      = Some (fatal_run Release (header ?T ?n @ [Timing]))"
    if h: "length argv = 3" "?n \<noteq> 0" and bound: "unat ?n < 2 ^ 64 - 65535"
    using main_of_search(2) [where strtoull = strtoull and argv = argv and flt = "Some Release" and printed = "[Timing]" and site = Release, OF h]
      search_late_fault(2) [OF bound, of ?T]
    by simp
  have first: "length argv = 3 \<and> ?n \<noteq> 0 \<longrightarrow>
      (\<forall>r. main strtoull flt argv = Some r \<longrightarrow>
         r = completed_run ?T ?n \<or> (\<exists>site printed. flt = Some site \<and> r = fatal_run site printed))
      \<and> main strtoull (Some Setup) argv = Some (fatal_run Setup (header ?T ?n))
      \<and> main strtoull (Some (Launch 0)) argv = Some (fatal_run (Launch 0) (header ?T ?n))"
  proof (intro impI)
    assume "length argv = 3 \<and> ?n \<noteq> 0"
    hence h: "length argv = 3" "?n \<noteq> 0" by simp_all
    show "(\<forall>r. main strtoull flt argv = Some r \<longrightarrow>
         r = completed_run ?T ?n \<or> (\<exists>site printed. flt = Some site \<and> r = fatal_run site printed))
      \<and> main strtoull (Some Setup) argv = Some (fatal_run Setup (header ?T ?n))
      \<and> main strtoull (Some (Launch 0)) argv = Some (fatal_run (Launch 0) (header ?T ?n))"
      by (intro conjI) (rule d [OF h], rule e [OF h], rule f [OF h])
  qed
  have second: "length argv = 3 \<and> ?n \<noteq> 0 \<and> unat ?n < 2 ^ 64 - 65535 \<longrightarrow>
      main strtoull None argv = Some (completed_run ?T ?n)
      \<and> (\<forall>j. unat ?n < 1 + j * 16776960 \<longrightarrow>
            main strtoull (Some (Launch j)) argv = Some (completed_run ?T ?n))
      \<and> (\<forall>j. 1 + j * 16776960 \<le> unat ?n \<longrightarrow>
            main strtoull (Some (Launch j)) argv = Some (fatal_run (Launch j) (header ?T ?n)))
      \<and> main strtoull (Some Collect) argv = Some (fatal_run Collect (header ?T ?n))
      \<and> main strtoull (Some Release) argv
          = Some (fatal_run Release (header ?T ?n @ [Timing]))"
  proof (intro impI)
    assume "length argv = 3 \<and> ?n \<noteq> 0 \<and> unat ?n < 2 ^ 64 - 65535"
    hence h: "length argv = 3" "?n \<noteq> 0" "unat ?n < 2 ^ 64 - 65535" by simp_all
    show "main strtoull None argv = Some (completed_run ?T ?n)
      \<and> (\<forall>j. unat ?n < 1 + j * 16776960 \<longrightarrow>
            main strtoull (Some (Launch j)) argv = Some (completed_run ?T ?n))
      \<and> (\<forall>j. 1 + j * 16776960 \<le> unat ?n \<longrightarrow>
            main strtoull (Some (Launch j)) argv = Some (fatal_run (Launch j) (header ?T ?n)))
      \<and> main strtoull (Some Collect) argv = Some (fatal_run Collect (header ?T ?n))
      \<and> main strtoull (Some Release) argv
          = Some (fatal_run Release (header ?T ?n @ [Timing]))"
      using g [OF h] i [OF h] k [OF h] l [OF h] m [OF h] by simp
  qed
  have zero: "length argv = 3 \<and> ?n = 0 \<longrightarrow>
      main strtoull flt argv = Some \<lparr>exit_code = 1, err = [NMaxZero], out = []\<rparr>"
    using b by simp
  have usage: "length argv \<noteq> 3 \<longrightarrow>
      main strtoull flt argv = Some \<lparr>exit_code = 1, err = [Usage], out = []\<rparr>"
    using a by simp
  show ?thesis
    by (intro conjI) (rule usage, rule zero, rule c, rule c, rule c, rule first, rule second)
qed

theorem main_exit_codes_witness:
  "length [''eta_congruent_gpu'', ''3''] \<noteq> 3
   \<and> main decimal None [''eta_congruent_gpu'', ''3'']
       = Some \<lparr>exit_code = 1, err = [Usage], out = []\<rparr>
   \<and> length [''eta_congruent_gpu'', ''3'', ''0''] = 3
   \<and> decimal ([''eta_congruent_gpu'', ''3'', ''0''] ! 2) = 0
   \<and> main decimal None [''eta_congruent_gpu'', ''3'', ''0'']
       = Some \<lparr>exit_code = 1, err = [NMaxZero], out = []\<rparr>
   \<and> length [''eta_congruent_gpu'', ''3'', ''10''] = 3
   \<and> decimal ([''eta_congruent_gpu'', ''3'', ''10''] ! 2) \<noteq> 0
   \<and> unat (decimal ([''eta_congruent_gpu'', ''3'', ''10''] ! 2)) < 2 ^ 64 - 65535
   \<and> main decimal None [''eta_congruent_gpu'', ''3'', ''10'']
       = Some \<lparr>exit_code = 0, err = [],
               out = [Banner 3 3 10, Gpu, Timing, EtaFound 1 2, Meta 3 10]\<rparr>
   \<and> main decimal None [''eta_congruent_gpu'', ''4'', ''1'']
       = Some \<lparr>exit_code = 0, err = [],
               out = [Banner 4 0 1, Warning, Gpu, Timing, NoEta 1, Meta 4 1]\<rparr>
   \<and> main decimal (Some Setup) [''eta_congruent_gpu'', ''3'', ''10'']
       = Some \<lparr>exit_code = 1, err = [Fatal Setup], out = [Banner 3 3 10, Gpu]\<rparr>
   \<and> 1 + 0 * 16776960 \<le> unat (decimal ([''eta_congruent_gpu'', ''3'', ''10''] ! 2))
   \<and> main decimal (Some (Launch 0)) [''eta_congruent_gpu'', ''3'', ''10'']
       = Some \<lparr>exit_code = 1, err = [Fatal (Launch 0)], out = [Banner 3 3 10, Gpu]\<rparr>
   \<and> unat (decimal ([''eta_congruent_gpu'', ''3'', ''10''] ! 2)) < 1 + 1 * 16776960
   \<and> main decimal (Some (Launch 1)) [''eta_congruent_gpu'', ''3'', ''10'']
       = Some \<lparr>exit_code = 0, err = [],
               out = [Banner 3 3 10, Gpu, Timing, EtaFound 1 2, Meta 3 10]\<rparr>
   \<and> 1 + 1 * 16776960 \<le> unat (decimal ([''eta_congruent_gpu'', ''3'', ''16776961''] ! 2))
   \<and> main decimal (Some (Launch 1)) [''eta_congruent_gpu'', ''3'', ''16776961'']
       = Some \<lparr>exit_code = 1, err = [Fatal (Launch 1)], out = [Banner 3 3 16776961, Gpu]\<rparr>
   \<and> main decimal (Some Collect) [''eta_congruent_gpu'', ''3'', ''10'']
       = Some \<lparr>exit_code = 1, err = [Fatal Collect], out = [Banner 3 3 10, Gpu]\<rparr>
   \<and> main decimal (Some Release) [''eta_congruent_gpu'', ''3'', ''10'']
       = Some \<lparr>exit_code = 1, err = [Fatal Release], out = [Banner 3 3 10, Gpu, Timing]\<rparr>"
proof -
  note d = decimal_0 decimal_1 decimal_3 decimal_4 decimal_10 decimal_two_chunks
  note r = completed_run_def fatal_run_def header_def spec_scan_3_10 spec_scan_4_1 ULLONG_MAX_def
  let ?short = "[''eta_congruent_gpu'', ''3'']"
  let ?zero = "[''eta_congruent_gpu'', ''3'', ''0'']"
  let ?ten = "[''eta_congruent_gpu'', ''3'', ''10'']"
  let ?none = "[''eta_congruent_gpu'', ''4'', ''1'']"
  let ?two = "[''eta_congruent_gpu'', ''3'', ''16776961'']"
  have u: "main decimal None ?short = Some \<lparr>exit_code = 1, err = [Usage], out = []\<rparr>"
    using main_exit_codes [where argv = ?short and strtoull = decimal and flt = None,
        THEN conjunct1]
    by simp
  have z: "main decimal None ?zero = Some \<lparr>exit_code = 1, err = [NMaxZero], out = []\<rparr>"
    using main_exit_codes [where argv = ?zero and strtoull = decimal and flt = None,
        THEN conjunct2, THEN conjunct1]
    by (simp add: d)
  have h: "length ?ten = 3 \<and> decimal (?ten ! 2) \<noteq> 0"
    "length ?ten = 3 \<and> decimal (?ten ! 2) \<noteq> 0 \<and> unat (decimal (?ten ! 2)) < 2 ^ 64 - 65535"
    "length ?none = 3 \<and> decimal (?none ! 2) \<noteq> 0 \<and> unat (decimal (?none ! 2)) < 2 ^ 64 - 65535"
    "length ?two = 3 \<and> decimal (?two ! 2) \<noteq> 0 \<and> unat (decimal (?two ! 2)) < 2 ^ 64 - 65535"
    by (simp_all add: d)
  note rest = conjunct2 [THEN conjunct2, THEN conjunct2, THEN conjunct2, THEN conjunct2]
  note every = main_exit_codes [where argv = ?ten and strtoull = decimal and flt = None,
      THEN rest, THEN conjunct1, THEN mp, OF h(1)]
  note bounded = main_exit_codes [where argv = ?ten and strtoull = decimal and flt = None,
      THEN rest, THEN conjunct2, THEN mp, OF h(2)]
  note bounded_none = main_exit_codes [where argv = ?none and strtoull = decimal and flt = None,
      THEN rest, THEN conjunct2, THEN mp, OF h(3)]
  note bounded_two = main_exit_codes [where argv = ?two and strtoull = decimal and flt = None,
      THEN rest, THEN conjunct2, THEN mp, OF h(4)]
  have ok: "main decimal None ?ten
       = Some \<lparr>exit_code = 0, err = [],
               out = [Banner 3 3 10, Gpu, Timing, EtaFound 1 2, Meta 3 10]\<rparr>"
    using bounded [THEN conjunct1] by (simp add: d r)
  have nf: "main decimal None ?none
       = Some \<lparr>exit_code = 0, err = [],
               out = [Banner 4 0 1, Warning, Gpu, Timing, NoEta 1, Meta 4 1]\<rparr>"
    using bounded_none [THEN conjunct1] by (simp add: d r)
  have s: "main decimal (Some Setup) ?ten
       = Some \<lparr>exit_code = 1, err = [Fatal Setup], out = [Banner 3 3 10, Gpu]\<rparr>"
    using every [THEN conjunct2, THEN conjunct1] by (simp add: d r)
  have l0: "main decimal (Some (Launch 0)) ?ten
       = Some \<lparr>exit_code = 1, err = [Fatal (Launch 0)], out = [Banner 3 3 10, Gpu]\<rparr>"
    using every [THEN conjunct2, THEN conjunct2] by (simp add: d r)
  have l1: "main decimal (Some (Launch 1)) ?ten
       = Some \<lparr>exit_code = 0, err = [],
               out = [Banner 3 3 10, Gpu, Timing, EtaFound 1 2, Meta 3 10]\<rparr>"
    using bounded [THEN conjunct2, THEN conjunct1, THEN spec, where x = 1]
    by (simp add: d r)
  have l2: "main decimal (Some (Launch 1)) ?two
       = Some \<lparr>exit_code = 1, err = [Fatal (Launch 1)], out = [Banner 3 3 16776961, Gpu]\<rparr>"
    using bounded_two [THEN conjunct2, THEN conjunct2, THEN conjunct1, THEN spec, where x = 1]
    by (simp add: d r)
  have c: "main decimal (Some Collect) ?ten
       = Some \<lparr>exit_code = 1, err = [Fatal Collect], out = [Banner 3 3 10, Gpu]\<rparr>"
    using bounded [THEN conjunct2, THEN conjunct2, THEN conjunct2, THEN conjunct1]
    by (simp add: d r)
  have e: "main decimal (Some Release) ?ten
       = Some \<lparr>exit_code = 1, err = [Fatal Release], out = [Banner 3 3 10, Gpu, Timing]\<rparr>"
    using bounded [THEN conjunct2, THEN conjunct2, THEN conjunct2, THEN conjunct2]
    by (simp add: d r)
  show ?thesis
    using u z ok nf s l0 l1 l2 c e by (simp add: d)
qed

text \<open>
  C8, as the claim states it, fails: with two arguments and \<open>n_max = 10\<close> the command
  exits with code 1 when the first call of the runtime fails.
\<close>

theorem main_fatal_exit_counterexample:
  "length [''eta_congruent_gpu'', ''3'', ''10''] = 3
   \<and> decimal ([''eta_congruent_gpu'', ''3'', ''10''] ! 2) = 10
   \<and> main decimal (Some Setup) [''eta_congruent_gpu'', ''3'', ''10'']
       = Some \<lparr>exit_code = 1, err = [Fatal Setup], out = [Banner 3 3 10, Gpu]\<rparr>"
  by (simp add: main_def Let_def decimal_3 decimal_10 search_eta_chunked_def header_def)

end
